theory Spec2Isabelle
  imports Main "HOL-Library.Multiset" "HOL-Library.AList"
begin

section \<open>Python values, exceptions and text formatting\<close>

text \<open>
  The module \<^verbatim>\<open>pajbot/models/user.py\<close> is embedded function by function. Python
  integers are \<open>int\<close>, Python strings are \<open>string\<close>, an exception is a value of
  \<open>exc\<close>, and a method that reads or writes the object or one of the two stores
  takes the state and returns an outcome together with the state it leaves behind,
  also when it raises.
\<close>

datatype exc =
    FailedCommand
  | AttributeError
  | KeyError
  | IndexError
  | MultipleResultsFound
  | RuntimeError
  | OtherException string

datatype 'a outcome = Return 'a | Raise exc

text \<open>
  A byte string held by the key-value store. The client writes the Python integer
  \<open>n\<close> as its decimal text, and \<^verbatim>\<open>int()\<close> reads that text back as \<open>n\<close>:
  \<open>Num n\<close> is a stored text that \<^verbatim>\<open>int()\<close> reads as \<open>n\<close>. \<open>Txt s\<close> is a stored
  text \<open>s\<close> of any other origin; where such a text is passed to \<^verbatim>\<open>int()\<close> it is
  taken to be rejected with ValueError.
\<close>

datatype rval = Num int | Txt string

text \<open>
  A reply of the store: \<open>Nil\<close> for an absent key, field or member (Python's
  \<^verbatim>\<open>None\<close>), \<open>Bulk\<close> for the byte string of \<^verbatim>\<open>hget\<close>, \<^verbatim>\<open>hgetall\<close> and
  \<^verbatim>\<open>mget\<close>, \<open>Score\<close> for the number of \<^verbatim>\<open>zscore\<close> (the scores this module writes
  are whole numbers).
\<close>

datatype reply = Nil | Bulk rval | Score int

text \<open>
  The Python values that occur in \<^verbatim>\<open>self.values\<close>: \<open>PyBytes\<close> and \<open>PyScore\<close> are
  replies kept as they came.
\<close>

datatype pyval = PyNone | PyBool bool | PyInt int | PyStr string | PyBytes rval | PyScore int

fun str_nat :: "nat \<Rightarrow> string" where
  "str_nat n =
     (if n < 10 then [char_of (48 + n)]
      else str_nat (n div 10) @ [char_of (48 + n mod 10)])"

declare str_nat.simps [simp del]

definition str_int :: "int \<Rightarrow> string" where
  "str_int i = (if i < 0 then CHR ''-'' # str_nat (nat (- i)) else str_nat (nat i))"

fun join_comma :: "string list \<Rightarrow> string" where
  "join_comma [] = []"
| "join_comma [s] = s"
| "join_comma (s # t # ss) = s @ '', '' @ join_comma (t # ss)"

definition str_int_list :: "int list \<Rightarrow> string" where
  "str_int_list xs = ''['' @ join_comma (map str_int xs) @ '']''"

fun str_rval :: "rval \<Rightarrow> string" where
  "str_rval (Num n) = str_int n"
| "str_rval (Txt s) = s"

text \<open>
  \<^verbatim>\<open>'{}'.format(value)\<close>. A byte string prints as its \<^verbatim>\<open>repr\<close>, the text between
  \<^verbatim>\<open>b'\<close> and \<^verbatim>\<open>'\<close>; the escapes that \<^verbatim>\<open>repr\<close> writes for a quote, a backslash or a
  byte outside printable ASCII are not modelled.
\<close>

fun str_pyval :: "pyval \<Rightarrow> string" where
  "str_pyval PyNone = ''None''"
| "str_pyval (PyBool b) = (if b then ''True'' else ''False'')"
| "str_pyval (PyInt n) = str_int n"
| "str_pyval (PyStr s) = s"
| "str_pyval (PyBytes v) = CHR ''b'' # CHR 0x27 # str_rval v @ [CHR 0x27]"
| "str_pyval (PyScore n) = str_int n @ ''.0''"

text \<open>
  \<^verbatim>\<open>str.lower()\<close> on the ASCII letters, which is what a chat user name is made of.
  A cased letter outside ASCII, which \<^verbatim>\<open>str.lower()\<close> would fold as well, is left as
  it is; nothing stated below depends on how a letter is folded.
\<close>

definition lower_char :: "char \<Rightarrow> char" where
  "lower_char c =
     (let n = (of_char c :: nat) in if 65 \<le> n \<and> n \<le> 90 then char_of (n + 32) else c)"

definition lower :: "string \<Rightarrow> string" where
  "lower s = map lower_char s"

datatype log_record = Debug string | Warn string | Error string | Exception string


section \<open>The relational record and its store\<close>

text \<open>
  The mapped columns of \<^verbatim>\<open>class User\<close>. \<^verbatim>\<open>id\<close> is \<open>None\<close> until the store assigns
  it. The unmapped attributes \<^verbatim>\<open>quest_progress\<close>, \<^verbatim>\<open>debts\<close> and \<^verbatim>\<open>timed_out\<close> that
  \<^verbatim>\<open>User.__init__\<close> also sets are not columns and are never read through the
  accessors below; they are left out.
\<close>

record User =
  id_user :: "int option"
  username_user :: string
  username_raw_user :: string
  level :: int
  points :: int
  subscriber :: bool
  minutes_in_chat_online :: int
  minutes_in_chat_offline :: int

definition User_init :: "string \<Rightarrow> User" where
  "User_init name =
     \<lparr> id_user = None,
       username_user = lower name,
       username_raw_user = name,
       level = 100,
       points = 0,
       subscriber = False,
       minutes_in_chat_online = 0,
       minutes_in_chat_offline = 0 \<rparr>"

text \<open>
  A relational session: the rows of \<^verbatim>\<open>tb_user\<close> that a query of the session sees
  (a row added with \<^verbatim>\<open>add\<close> included), and the comparison that the store applies
  between the \<^verbatim>\<open>username\<close> column and the value of a \<^verbatim>\<open>filter_by\<close>. The comparison
  belongs to the store (its collation), not to this module, so it is a component of
  the session.
\<close>

record db_session =
  rows :: "User list"
  column_eq :: "string \<Rightarrow> string \<Rightarrow> bool"

definition one_or_none :: "'a list \<Rightarrow> exc + 'a option" where
  "one_or_none rs =
     (case rs of
        [] \<Rightarrow> Inr None
      | [r] \<Rightarrow> Inr (Some r)
      | _ \<Rightarrow> Inl MultipleResultsFound)"

definition filter_by_username :: "db_session \<Rightarrow> string \<Rightarrow> User list" where
  "filter_by_username s name = filter (\<lambda>u. column_eq s (username_user u) name) (rows s)"

definition select_or_create :: "db_session \<Rightarrow> string \<Rightarrow> exc + (User \<times> db_session)" where
  "select_or_create s name =
     (case one_or_none (filter_by_username s name) of
        Inl e \<Rightarrow> Inl e
      | Inr (Some user) \<Rightarrow> Inr (user, s)
      | Inr None \<Rightarrow>
          (let user = User_init name in Inr (user, s\<lparr>rows := rows s @ [user]\<rparr>)))"


section \<open>The short-lived field cache\<close>

record cache_entry =
  id_cached :: "int option"
  level_cached :: int
  subscriber_cached :: bool

type_synonym sql_cache = "string \<rightharpoonup> cache_entry"

definition UserSQLCache_save :: "User \<Rightarrow> sql_cache \<Rightarrow> sql_cache" where
  "UserSQLCache_save user c =
     c(username_user user \<mapsto>
         \<lparr> id_cached = id_user user,
           level_cached = level user,
           subscriber_cached = subscriber user \<rparr>)"

text \<open>\<^verbatim>\<open>UserSQLCache.get(username, 'subscriber')\<close>: \<open>None\<close> stands for NoCacheHit.\<close>

definition UserSQLCache_get_subscriber :: "sql_cache \<Rightarrow> string \<Rightarrow> bool option" where
  "UserSQLCache_get_subscriber c name = map_option subscriber_cached (c name)"


section \<open>The key-value store\<close>

text \<open>
  The store holds sorted sets (member to score), hashes (field to byte string, in the
  order in which \<^verbatim>\<open>hgetall\<close> lists the fields) and plain keys with the lifetime given
  to \<^verbatim>\<open>setex\<close>. Every command sent is appended to \<open>commands\<close>. No clock is modelled:
  a plain key stays until it is overwritten. Every command is answered; the failures
  of the client and of the connection are outside this module.
\<close>

datatype redis_cmd =
    ZSCORE string string
  | HGET string string
  | HGETALL string
  | MGET "string list"
  | HSET string string rval
  | HSETNX string string rval
  | HDEL string string
  | SETEX string int rval

record redis =
  zsets :: "string \<Rightarrow> string \<rightharpoonup> int"
  hashes :: "string \<Rightarrow> (string \<times> rval) list"
  plain_keys :: "string \<rightharpoonup> rval \<times> int"
  commands :: "redis_cmd list"

definition sent :: "redis_cmd \<Rightarrow> redis \<Rightarrow> redis" where
  "sent c r = r\<lparr>commands := commands r @ [c]\<rparr>"

definition hget :: "string \<Rightarrow> string \<Rightarrow> redis \<Rightarrow> reply \<times> redis" where
  "hget key field r =
     ((case map_of (hashes r key) field of None \<Rightarrow> Nil | Some v \<Rightarrow> Bulk v),
      sent (HGET key field) r)"

definition zscore :: "string \<Rightarrow> string \<Rightarrow> redis \<Rightarrow> reply \<times> redis" where
  "zscore key member r =
     ((case zsets r key member of None \<Rightarrow> Nil | Some n \<Rightarrow> Score n),
      sent (ZSCORE key member) r)"

definition hgetall :: "string \<Rightarrow> redis \<Rightarrow> (string \<times> rval) list \<times> redis" where
  "hgetall key r = (hashes r key, sent (HGETALL key) r)"

definition hset :: "string \<Rightarrow> string \<Rightarrow> rval \<Rightarrow> redis \<Rightarrow> redis" where
  "hset key field v r =
     sent (HSET key field v)
       (r\<lparr>hashes := (hashes r)(key := AList.update field v (hashes r key))\<rparr>)"

definition hsetnx :: "string \<Rightarrow> string \<Rightarrow> rval \<Rightarrow> redis \<Rightarrow> int \<times> redis" where
  "hsetnx key field v r =
     (case map_of (hashes r key) field of
        Some old \<Rightarrow> (0, sent (HSETNX key field v) r)
      | None \<Rightarrow>
          (1, sent (HSETNX key field v)
                (r\<lparr>hashes := (hashes r)(key := AList.update field v (hashes r key))\<rparr>)))"

definition hdel :: "string \<Rightarrow> string \<Rightarrow> redis \<Rightarrow> redis" where
  "hdel key field r =
     sent (HDEL key field)
       (r\<lparr>hashes := (hashes r)(key := AList.delete field (hashes r key))\<rparr>)"

definition mget :: "string list \<Rightarrow> redis \<Rightarrow> reply list \<times> redis" where
  "mget keys r =
     (map (\<lambda>k. case plain_keys r k of None \<Rightarrow> Nil | Some (v, ttl) \<Rightarrow> Bulk v) keys,
      sent (MGET keys) r)"

definition setex :: "string \<Rightarrow> int \<Rightarrow> rval \<Rightarrow> redis \<Rightarrow> redis" where
  "setex key time v r =
     sent (SETEX key time v) (r\<lparr>plain_keys := (plain_keys r)(key \<mapsto> (v, time))\<rparr>)"


section \<open>The user object and the world around it\<close>

text \<open>
  One \<^verbatim>\<open>UserCombined\<close> object: the attributes set by \<^verbatim>\<open>UserRedis.__init__\<close>,
  \<^verbatim>\<open>UserSQL.__init__\<close> and \<^verbatim>\<open>UserCombined.__init__\<close>. \<open>shared_db_session\<close> says
  whether a session was supplied; the session itself is \<open>db\<close> of the world.
\<close>

record UserCombined =
  username :: string
  redis_loaded :: bool
  values_dict :: "string \<rightharpoonup> pyval"
  user_model :: "User option"
  model_loaded :: bool
  shared_db_session :: bool
  debts :: "int list"
  moderator :: bool
  timed_out :: bool
  timeout_end :: "int option"

text \<open>
  What the module reaches through its managers: the relational session, the
  process-wide cache, the key-value store, the log, the handlers triggered, and the
  streamer name and current stream id given by \<^verbatim>\<open>StreamHelper\<close> (\<open>None\<close> is the
  \<^verbatim>\<open>False\<close> that \<^verbatim>\<open>get_current_stream_id\<close> returns when no stream is live).
\<close>

record world =
  db :: db_session
  cache :: sql_cache
  kv :: redis
  log :: "log_record list"
  triggered :: "(string \<times> string \<times> int) list"
  streamer :: string
  current_stream_id :: "int option"

type_synonym state = "UserCombined \<times> world"

type_synonym 'a action = "state \<Rightarrow> 'a outcome \<times> state"

definition and_then :: "'a action \<Rightarrow> ('a \<Rightarrow> 'b action) \<Rightarrow> 'b action" where
  "and_then m f st =
     (case m st of
        (Raise e, st') \<Rightarrow> (Raise e, st')
      | (Return x, st') \<Rightarrow> f x st')"


section \<open>The relational accessor\<close>

text \<open>
  \<^verbatim>\<open>sql_load\<close>. The flag is set before the query, so it stays set when the query
  raises. Without a shared session the record is expunged from the short-lived
  session before that session commits, so a record made by \<^verbatim>\<open>select_or_create\<close> is
  not inserted and the rows are as before.
\<close>

fun sql_load :: "unit action" where
  "sql_load (self, w) =
     (if model_loaded self then (Return (), (self, w))
      else
        let self1 = self\<lparr>model_loaded := True\<rparr>;
            w1 = w\<lparr>log := log w @ [Debug (''[UserSQL] Loading user model for '' @ username self)]\<rparr>
        in case select_or_create (db w1) (username self) of
             Inl e \<Rightarrow> (Raise e, (self1, w1))
           | Inr (user, s) \<Rightarrow>
               (Return (),
                (self1\<lparr>user_model := Some user\<rparr>,
                 if shared_db_session self then w1\<lparr>db := s\<rparr> else w1)))"

text \<open>
  Reading and writing an attribute of \<^verbatim>\<open>self.user_model\<close>, which may be \<^verbatim>\<open>None\<close>.
  The record is held in the object. With a shared session the session holds the very
  same record, so a write is seen through the session as well; that sharing is not
  modelled: \<open>rows\<close> of the session keep the record as it was when it was loaded or
  added, and nothing stated below reads a written attribute through the session.
\<close>

fun model_get :: "(User \<Rightarrow> 'a) \<Rightarrow> 'a action" where
  "model_get f (self, w) =
     (case user_model self of
        None \<Rightarrow> (Raise AttributeError, (self, w))
      | Some m \<Rightarrow> (Return (f m), (self, w)))"

fun model_set :: "(User \<Rightarrow> User) \<Rightarrow> unit action" where
  "model_set f (self, w) =
     (case user_model self of
        None \<Rightarrow> (Raise AttributeError, (self, w))
      | Some m \<Rightarrow> (Return (), (self\<lparr>user_model := Some (f m)\<rparr>, w)))"

definition get_points :: "int action" where
  "get_points = and_then sql_load (\<lambda>_. model_get points)"

definition set_points :: "int \<Rightarrow> unit action" where
  "set_points v = and_then sql_load (\<lambda>_. model_set (\<lambda>m. m\<lparr>points := v\<rparr>))"

text \<open>The \<^verbatim>\<open>subscriber\<close> property: the getter and the setter with its short cut.\<close>

fun get_subscriber :: "bool action" where
  "get_subscriber (self, w) =
     (case UserSQLCache_get_subscriber (cache w) (username self) of
        Some v \<Rightarrow> (Return v, (self, w))
      | None \<Rightarrow> and_then sql_load (\<lambda>_. model_get subscriber) (self, w))"

fun set_subscriber :: "bool \<Rightarrow> unit action" where
  "set_subscriber v (self, w) =
     (case UserSQLCache_get_subscriber (cache w) (username self) of
        Some old_value \<Rightarrow>
          if old_value = v then (Return (), (self, w))
          else and_then sql_load (\<lambda>_. model_set (\<lambda>m. m\<lparr>subscriber := v\<rparr>)) (self, w)
      | None \<Rightarrow> and_then sql_load (\<lambda>_. model_set (\<lambda>m. m\<lparr>subscriber := v\<rparr>)) (self, w))"


section \<open>Points and debts\<close>

text \<open>\<^verbatim>\<open>self.points -= n\<close> and \<^verbatim>\<open>self.points += n\<close>: a read, then a write.\<close>

definition points_isub :: "int \<Rightarrow> unit action" where
  "points_isub n = and_then get_points (\<lambda>p. set_points (p - n))"

definition points_iadd :: "int \<Rightarrow> unit action" where
  "points_iadd n = and_then get_points (\<lambda>p. set_points (p + n))"

definition spend_points :: "int \<Rightarrow> bool action" where
  "spend_points points_to_spend =
     and_then get_points (\<lambda>p.
       if points_to_spend \<le> p
       then and_then (points_isub points_to_spend) (\<lambda>_ st. (Return True, st))
       else (\<lambda>st. (Return False, st)))"

fun create_debt :: "int \<Rightarrow> unit action" where
  "create_debt n (self, w) = (Return (), (self\<lparr>debts := debts self @ [n]\<rparr>, w))"

text \<open>
  \<^verbatim>\<open>remove_debt\<close>: \<^verbatim>\<open>list.remove\<close> drops the first equal entry and raises ValueError
  when there is none; the handler logs the error and returns.
\<close>

fun remove_debt :: "int \<Rightarrow> unit action" where
  "remove_debt debt (self, w) =
     (if debt \<in> set (debts self)
      then (Return (), (self\<lparr>debts := remove1 debt (debts self)\<rparr>, w))
      else (Return (),
            (self,
             w\<lparr>log := log w @
                [Error (''For some reason the debt '' @ str_int debt @
                        '' was not in the list of debts '' @ str_int_list (debts self))]\<rparr>)))"

definition pay_debt :: "int \<Rightarrow> unit action" where
  "pay_debt debt = and_then (points_isub debt) (\<lambda>_. remove_debt debt)"

definition points_in_debt :: "UserCombined \<Rightarrow> int" where
  "points_in_debt self = sum_list (debts self)"

definition points_available :: "int action" where
  "points_available =
     and_then get_points (\<lambda>p (self, w). (Return (p - points_in_debt self), (self, w)))"

definition can_afford :: "int \<Rightarrow> bool action" where
  "can_afford points_to_spend =
     and_then points_available (\<lambda>a st. (Return (a \<ge> points_to_spend), st))"


section \<open>The key-value accessor\<close>

text \<open>
  \<^verbatim>\<open>int(value)\<close> on a reply: \<open>None\<close> when it raises (TypeError on \<^verbatim>\<open>None\<close>,
  ValueError on a text that is not a number). The texts that this module writes from a
  Python string are the raw names, which are never passed to \<^verbatim>\<open>int()\<close>.
\<close>

fun py_int :: "reply \<Rightarrow> int option" where
  "py_int Nil = None"
| "py_int (Bulk (Num n)) = Some n"
| "py_int (Bulk (Txt s)) = None"
| "py_int (Score n) = Some n"

fun truthy :: "reply \<Rightarrow> bool" where
  "truthy Nil = False"
| "truthy (Bulk (Num n)) = True"
| "truthy (Bulk (Txt s)) = (s \<noteq> [])"
| "truthy (Score n) = (n \<noteq> 0)"

fun val_of_reply :: "reply \<Rightarrow> pyval" where
  "val_of_reply Nil = PyNone"
| "val_of_reply (Bulk v) = PyBytes v"
| "val_of_reply (Score n) = PyScore n"

definition SS_KEYS :: "string list" where
  "SS_KEYS = [''num_lines'']"

definition HASH_KEYS :: "string list" where
  "HASH_KEYS = [''last_seen'', ''last_active'', ''username_raw'']"

definition BOOL_KEYS :: "string list" where
  "BOOL_KEYS = [''ignored'', ''banned'']"

definition FULL_KEYS :: "string list" where
  "FULL_KEYS = SS_KEYS @ HASH_KEYS @ BOOL_KEYS"

definition SS_DEFAULTS :: "string \<rightharpoonup> pyval" where
  "SS_DEFAULTS = [''num_lines'' \<mapsto> PyInt 0]"

definition HASH_DEFAULTS :: "string \<rightharpoonup> pyval" where
  "HASH_DEFAULTS = [''last_seen'' \<mapsto> PyNone, ''last_active'' \<mapsto> PyNone]"

definition fix_ss :: "string \<Rightarrow> reply \<Rightarrow> pyval outcome" where
  "fix_ss key v =
     (case py_int v of
        Some n \<Rightarrow> Return (PyInt n)
      | None \<Rightarrow> (case SS_DEFAULTS key of None \<Rightarrow> Raise KeyError | Some d \<Rightarrow> Return d))"

definition fix_hash :: "string \<Rightarrow> string \<Rightarrow> reply \<Rightarrow> pyval outcome" where
  "fix_hash uname key v =
     (if key = ''username_raw''
      then Return (if truthy v then val_of_reply v else PyStr uname)
      else if truthy v then Return (val_of_reply v)
      else (case HASH_DEFAULTS key of None \<Rightarrow> Raise KeyError | Some d \<Rightarrow> Return d))"

definition fix_bool :: "string \<Rightarrow> reply \<Rightarrow> bool" where
  "fix_bool key v = (if v = Nil then False else True)"

definition users_key :: "string \<Rightarrow> string \<Rightarrow> string" where
  "users_key strm key = strm @ '':users:'' @ key"

definition queue_up_redis_calls :: "string \<Rightarrow> string \<Rightarrow> (redis \<Rightarrow> reply \<times> redis) list" where
  "queue_up_redis_calls strm uname =
     map (\<lambda>key. zscore (users_key strm key) uname) SS_KEYS @
     map (\<lambda>key. hget (users_key strm key) uname) HASH_KEYS @
     map (\<lambda>key. hget (users_key strm key) uname) BOOL_KEYS"

fun pipeline_execute :: "(redis \<Rightarrow> reply \<times> redis) list \<Rightarrow> redis \<Rightarrow> reply list \<times> redis" where
  "pipeline_execute [] r = ([], r)"
| "pipeline_execute (c # cs) r =
     (case c r of (x, r1) \<Rightarrow>
        (case pipeline_execute cs r1 of (xs, r2) \<Rightarrow> (x # xs, r2)))"

text \<open>
  The loop of \<^verbatim>\<open>load_redis_data\<close>: each reply takes the next key off the front of
  \<^verbatim>\<open>full_keys\<close>; \<^verbatim>\<open>pop(0)\<close> on the empty list raises IndexError.
\<close>

fun load_values ::
  "string \<Rightarrow> string list \<Rightarrow> reply list \<Rightarrow> (string \<rightharpoonup> pyval) \<Rightarrow>
   unit outcome \<times> (string \<rightharpoonup> pyval)" where
  "load_values uname full_keys [] vals = (Return (), vals)"
| "load_values uname [] (v # data) vals = (Raise IndexError, vals)"
| "load_values uname (key # full_keys) (v # data) vals =
     (case (if key \<in> set SS_KEYS then fix_ss key v
            else if key \<in> set HASH_KEYS then fix_hash uname key v
            else Return (PyBool (fix_bool key v))) of
        Raise e \<Rightarrow> (Raise e, vals)
      | Return x \<Rightarrow> load_values uname full_keys data (vals(key \<mapsto> x)))"

fun load_redis_data :: "reply list \<Rightarrow> unit action" where
  "load_redis_data data (self, w) =
     (case load_values (username self) FULL_KEYS data (values_dict self) of
        (res, vals) \<Rightarrow> (res, (self\<lparr>redis_loaded := True, values_dict := vals\<rparr>, w)))"

fun redis_load :: "unit action" where
  "redis_load (self, w) =
     (if redis_loaded self then (Return (), (self, w))
      else
        (case pipeline_execute (queue_up_redis_calls (streamer w) (username self)) (kv w) of
           (data, r) \<Rightarrow> load_redis_data data (self, w\<lparr>kv := r\<rparr>)))"

fun values_get :: "string \<Rightarrow> pyval action" where
  "values_get key (self, w) =
     (case values_dict self key of
        None \<Rightarrow> (Raise KeyError, (self, w))
      | Some v \<Rightarrow> (Return v, (self, w)))"

definition get_username_raw :: "pyval action" where
  "get_username_raw = and_then redis_load (\<lambda>_. values_get ''username_raw'')"

fun set_username_raw :: "string \<Rightarrow> unit action" where
  "set_username_raw v (self, w) =
     (let self1 = self\<lparr>values_dict := (values_dict self)(''username_raw'' \<mapsto> PyStr v)\<rparr>;
          key = users_key (streamer w) ''username_raw''
      in if v \<noteq> username self
         then (Return (), (self1, w\<lparr>kv := hset key (username self) (Txt v) (kv w)\<rparr>))
         else (Return (), (self1, w\<lparr>kv := hdel key (username self) (kv w)\<rparr>)))"

definition get_ignored :: "pyval action" where
  "get_ignored = and_then redis_load (\<lambda>_. values_get ''ignored'')"

fun set_ignored :: "pyval \<Rightarrow> unit action" where
  "set_ignored v (self, w) =
     (let self1 = self\<lparr>values_dict := (values_dict self)(''ignored'' \<mapsto> v)\<rparr>;
          key = users_key (streamer w) ''ignored''
      in if v = PyBool True
         then (Return (), (self1, w\<lparr>kv := hset key (username self) (Num 1) (kv w)\<rparr>))
         else (Return (), (self1, w\<lparr>kv := hdel key (username self) (kv w)\<rparr>)))"

definition get_banned :: "pyval action" where
  "get_banned = and_then redis_load (\<lambda>_. values_get ''banned'')"

fun set_banned :: "pyval \<Rightarrow> unit action" where
  "set_banned v (self, w) =
     (let self1 = self\<lparr>values_dict := (values_dict self)(''banned'' \<mapsto> v)\<rparr>;
          key = users_key (streamer w) ''banned''
      in if v = PyBool True
         then (Return (), (self1, w\<lparr>kv := hset key (username self) (Num 1) (kv w)\<rparr>))
         else (Return (), (self1, w\<lparr>kv := hdel key (username self) (kv w)\<rparr>)))"


section \<open>The combined user\<close>

text \<open>
  \<^verbatim>\<open>UserCombined.__init__\<close>: the two base initialisers, then the assignment
  \<^verbatim>\<open>self.username_raw = username\<close>, which goes through the property setter of
  \<^verbatim>\<open>UserRedis\<close>, then the transient attributes.
\<close>

definition UserRedis_init :: "string \<Rightarrow> UserCombined \<Rightarrow> UserCombined" where
  "UserRedis_init name self =
     self\<lparr>username := name, redis_loaded := False, values_dict := Map.empty\<rparr>"

definition UserSQL_init :: "string \<Rightarrow> bool \<Rightarrow> User option \<Rightarrow> UserCombined \<Rightarrow> UserCombined" where
  "UserSQL_init name db_session_given model self =
     self\<lparr>username := name, user_model := model, model_loaded := (model \<noteq> None),
          shared_db_session := db_session_given\<rparr>"

definition blank_object :: UserCombined where
  "blank_object =
     \<lparr> username = [], redis_loaded = False, values_dict = Map.empty, user_model = None,
       model_loaded = False, shared_db_session = False, debts = [], moderator = False,
       timed_out = False, timeout_end = None \<rparr>"

definition UserCombined_init :: "string \<Rightarrow> bool \<Rightarrow> User option \<Rightarrow> world \<Rightarrow> state" where
  "UserCombined_init name db_session_given model w =
     (case set_username_raw name
             (UserSQL_init name db_session_given model (UserRedis_init name blank_object), w) of
        (res, (self, w1)) \<Rightarrow>
          (self\<lparr>debts := [], moderator := False, timed_out := False, timeout_end := None\<rparr>, w1))"


subsection \<open>Warnings and timeouts\<close>

record warning_settings =
  total_chances :: int
  redis_prefix :: string
  base_timeout :: int
  length_setting :: int

definition get_warning_keys :: "UserCombined \<Rightarrow> int \<Rightarrow> string \<Rightarrow> string list" where
  "get_warning_keys self chances prefix =
     map (\<lambda>i. prefix @ ''_'' @ username self @ ''_warning_'' @ str_int (int i))
       [0 ..< nat chances]"

definition get_warnings :: "string list \<Rightarrow> redis \<Rightarrow> reply list \<times> redis" where
  "get_warnings warning_keys r = mget warning_keys r"

definition get_chances_used :: "reply list \<Rightarrow> int" where
  "get_chances_used warnings = int (length warnings) - int (count_list warnings Nil)"

text \<open>
  \<^verbatim>\<open>add_warning\<close> walks the indices of \<^verbatim>\<open>warning_keys\<close> and reads \<^verbatim>\<open>warnings[id]\<close>
  at each; the two lists are walked together here, and a \<^verbatim>\<open>warnings\<close> that ends
  first is the IndexError of the source.
\<close>

fun add_warning ::
  "int \<Rightarrow> string list \<Rightarrow> reply list \<Rightarrow> redis \<Rightarrow> bool outcome \<times> redis" where
  "add_warning time [] warnings r = (Return False, r)"
| "add_warning time (k # ks) [] r = (Raise IndexError, r)"
| "add_warning time (k # ks) (x # xs) r =
     (if x = Nil then (Return True, setex k time (Num 1) r)
      else add_warning time ks xs r)"

fun timeout :: "int \<Rightarrow> warning_settings option \<Rightarrow> bool \<Rightarrow> (int \<times> string) action" where
  "timeout timeout_length warning_module use_warnings (self, w) =
     (let punishment = ''timed out for '' @ str_int timeout_length @ '' seconds''
      in case warning_module of
           None \<Rightarrow> (Return (timeout_length, punishment), (self, w))
         | Some m \<Rightarrow>
             if \<not> use_warnings then (Return (timeout_length, punishment), (self, w))
             else
               let warning_keys = get_warning_keys self (total_chances m) (redis_prefix m)
               in case get_warnings warning_keys (kv w) of
                    (warnings, r1) \<Rightarrow>
                      let chances_used = get_chances_used warnings
                      in if chances_used < total_chances m
                         then
                           let timeout_length2 = base_timeout m * (chances_used + 1);
                               punishment2 = ''timed out for '' @ str_int timeout_length2 @
                                             '' seconds (warning)''
                           in case add_warning (length_setting m) warning_keys warnings r1 of
                                (Raise e, r2) \<Rightarrow> (Raise e, (self, w\<lparr>kv := r2\<rparr>))
                              | (Return b, r2) \<Rightarrow>
                                  (Return (timeout_length2, punishment2), (self, w\<lparr>kv := r2\<rparr>))
                         else (Return (timeout_length, punishment), (self, w\<lparr>kv := r1\<rparr>)))"


subsection \<open>Spending points inside a scope\<close>

fun log_line :: "log_record \<Rightarrow> unit action" where
  "log_line l (self, w) = (Return (), (self, w\<lparr>log := log w @ [l]\<rparr>))"

text \<open>
  The two handlers of \<^verbatim>\<open>spend_currency_context\<close>. Both build the debug message,
  which reads the \<^verbatim>\<open>username_raw\<close> property, and then add the points back; the bare
  handler logs the exception first. Neither ends in a \<^verbatim>\<open>raise\<close>.
\<close>

definition returning_points :: "int \<Rightarrow> unit action" where
  "returning_points points_to_spend =
     and_then get_username_raw (\<lambda>raw.
     and_then (log_line (Debug (''Returning '' @ str_int points_to_spend @ '' points to '' @
                                str_pyval raw))) (\<lambda>_.
     points_iadd points_to_spend))"

definition handle :: "exc \<Rightarrow> int \<Rightarrow> unit action" where
  "handle e points_to_spend =
     (if e = FailedCommand then returning_points points_to_spend
      else and_then (log_line (Exception ''XXXX'')) (\<lambda>_. returning_points points_to_spend))"

text \<open>
  \<^verbatim>\<open>with user.spend_currency_context(p, t): body\<close>, under the protocol of
  \<^verbatim>\<open>contextlib.contextmanager\<close>. Entering runs the generator up to its \<^verbatim>\<open>yield\<close>;
  a generator that ends without yielding makes \<^verbatim>\<open>__enter__\<close> raise RuntimeError.
  When the body raises, the exception is thrown into the generator at the
  \<^verbatim>\<open>yield\<close>; a handler that runs to its end ends the generator, \<^verbatim>\<open>__exit__\<close> then
  returns true and the \<^verbatim>\<open>with\<close> statement completes normally. An exception raised
  inside a handler leaves the statement. \<^verbatim>\<open>tokens_to_spend\<close> is not used.
\<close>

definition spend_currency_context :: "int \<Rightarrow> int \<Rightarrow> unit action \<Rightarrow> unit action" where
  "spend_currency_context points_to_spend tokens_to_spend body st =
     (case spend_points points_to_spend st of
        (Raise e, st1) \<Rightarrow>
          (case handle e points_to_spend st1 of
             (Raise e2, st2) \<Rightarrow> (Raise e2, st2)
           | (Return u, st2) \<Rightarrow> (Raise RuntimeError, st2))
      | (Return b, st1) \<Rightarrow>
          (case body st1 of
             (Return u, st2) \<Rightarrow> (Return (), st2)
           | (Raise e, st2) \<Rightarrow> handle e points_to_spend st2))"


subsection \<open>The token ledger\<close>

definition tokens_key :: "string \<Rightarrow> string \<Rightarrow> string" where
  "tokens_key strm uname = strm @ '':'' @ uname @ '':tokens''"

text \<open>
  The loop of \<^verbatim>\<open>spend_tokens\<close> over the dictionary that \<^verbatim>\<open>hgetall\<close> returned, in
  the order of that dictionary.
\<close>

fun spend_tokens_loop ::
  "string \<Rightarrow> (string \<times> rval) list \<Rightarrow> int \<Rightarrow> redis \<Rightarrow> bool \<times> redis" where
  "spend_tokens_loop key [] tokens_to_spend r = (False, r)"
| "spend_tokens_loop key ((stream_id, v) # token_dict) tokens_to_spend r =
     (case py_int (Bulk v) of
        None \<Rightarrow> spend_tokens_loop key token_dict tokens_to_spend r
      | Some num_tokens \<Rightarrow>
          if num_tokens = 0 then spend_tokens_loop key token_dict tokens_to_spend r
          else
            let decrease_by = min tokens_to_spend num_tokens;
                tokens_to_spend2 = tokens_to_spend - decrease_by;
                num_tokens2 = num_tokens - decrease_by;
                r2 = hset key stream_id (Num num_tokens2) r
            in if tokens_to_spend2 = 0 then (True, r2)
               else spend_tokens_loop key token_dict tokens_to_spend2 r2)"

fun spend_tokens :: "int \<Rightarrow> bool action" where
  "spend_tokens tokens_to_spend (self, w) =
     (let user_token_key = tokens_key (streamer w) (username self)
      in case hgetall user_token_key (kv w) of
           (token_dict, r1) \<Rightarrow>
             (case spend_tokens_loop user_token_key token_dict tokens_to_spend r1 of
                (res, r2) \<Rightarrow> (Return res, (self, w\<lparr>kv := r2\<rparr>))))"

fun award_tokens :: "int \<Rightarrow> bool \<Rightarrow> bool action" where
  "award_tokens tokens force (self, w) =
     (case current_stream_id w of
        None \<Rightarrow> (Return False, (self, w))
      | Some stream_id \<Rightarrow>
          let key = tokens_key (streamer w) (username self)
          in if force
             then (Return True,
                   (self, w\<lparr>kv := hset key (str_int stream_id) (Num tokens) (kv w)\<rparr>))
             else
               (case hsetnx key (str_int stream_id) (Num tokens) (kv w) of
                  (n, r) \<Rightarrow>
                    if n = 1
                    then (Return True,
                          (self,
                           w\<lparr>kv := r,
                             triggered := triggered w @
                               [(''on_user_gain_tokens'', username self, tokens)]\<rparr>))
                    else (Return False, (self, w\<lparr>kv := r\<rparr>))))"

text \<open>\<^verbatim>\<open>get_tokens\<close>: the sum of the values that \<^verbatim>\<open>int()\<close> accepts; the others are logged.\<close>

fun get_tokens_loop :: "string \<Rightarrow> rval list \<Rightarrow> int \<Rightarrow> log_record list \<Rightarrow> int \<times> log_record list" where
  "get_tokens_loop uname [] num_tokens lg = (num_tokens, lg)"
| "get_tokens_loop uname (v # vs) num_tokens lg =
     (case py_int (Bulk v) of
        Some n \<Rightarrow> get_tokens_loop uname vs (num_tokens + n) lg
      | None \<Rightarrow>
          get_tokens_loop uname vs num_tokens
            (lg @ [Warn (''Invalid value for tokens, user '' @ uname)]))"

fun get_tokens :: "int action" where
  "get_tokens (self, w) =
     (case hgetall (tokens_key (streamer w) (username self)) (kv w) of
        (tokens, r1) \<Rightarrow>
          (case get_tokens_loop (username self) (map snd tokens) 0 (log w) of
             (num_tokens, lg) \<Rightarrow> (Return num_tokens, (self, w\<lparr>kv := r1, log := lg\<rparr>))))"


section \<open>Notions used in the statements\<close>

text \<open>
  The accessor has its record when the flag is set and the record is there; the
  balance of a state is the \<^verbatim>\<open>points\<close> of that record.
\<close>

definition loaded :: "state \<Rightarrow> bool" where
  "loaded st = (model_loaded (fst st) \<and> user_model (fst st) \<noteq> None)"

definition balance :: "state \<Rightarrow> int" where
  "balance st = (case user_model (fst st) of None \<Rightarrow> 0 | Some m \<Rightarrow> points m)"

fun with_points :: "int \<Rightarrow> state \<Rightarrow> state" where
  "with_points v (self, w) =
     (self\<lparr>user_model := map_option (\<lambda>m. m\<lparr>points := v\<rparr>) (user_model self)\<rparr>, w)"

text \<open>A sequence of \<^verbatim>\<open>create_debt\<close> calls, one for each amount of the list.\<close>

definition create_debts :: "int list \<Rightarrow> state \<Rightarrow> state" where
  "create_debts ds st = fold (\<lambda>d s. snd (create_debt d s)) ds st"

text \<open>
  The ledger of a user is the hash under the user's token key. Its sum is taken as
  \<^verbatim>\<open>get_tokens\<close> takes it. A ledger of the kind the module writes has one entry for
  each field, each a number that is not negative; it is drained when every entry is 0.
\<close>

definition ledger :: "state \<Rightarrow> (string \<times> rval) list" where
  "ledger st = hashes (kv (snd st)) (tokens_key (streamer (snd st)) (username (fst st)))"

definition token_sum :: "(string \<times> rval) list \<Rightarrow> int" where
  "token_sum token_dict =
     sum_list (map (\<lambda>v. case py_int (Bulk v) of None \<Rightarrow> 0 | Some n \<Rightarrow> n) (map snd token_dict))"

definition non_negative :: "(string \<times> rval) list \<Rightarrow> bool" where
  "non_negative token_dict =
     list_all (\<lambda>(f, v). case v of Num n \<Rightarrow> 0 \<le> n | Txt s \<Rightarrow> False) token_dict"

definition well_formed_ledger :: "(string \<times> rval) list \<Rightarrow> bool" where
  "well_formed_ledger token_dict = (distinct (map fst token_dict) \<and> non_negative token_dict)"

definition drained :: "(string \<times> rval) list \<Rightarrow> bool" where
  "drained token_dict = list_all (\<lambda>(f, v). v = Num 0) token_dict"


text \<open>
  For a warning policy \<open>m\<close>: the warning keys of the user, the replies that the store
  gives for them, the number of chances used, and the index of the first reply that
  is \<^verbatim>\<open>None\<close>.
\<close>

definition warning_keys_of :: "state \<Rightarrow> warning_settings \<Rightarrow> string list" where
  "warning_keys_of st m = get_warning_keys (fst st) (total_chances m) (redis_prefix m)"

definition warnings_of :: "state \<Rightarrow> warning_settings \<Rightarrow> reply list" where
  "warnings_of st m = fst (get_warnings (warning_keys_of st m) (kv (snd st)))"

definition chances_used_of :: "state \<Rightarrow> warning_settings \<Rightarrow> int" where
  "chances_used_of st m = get_chances_used (warnings_of st m)"

definition first_unset :: "reply list \<Rightarrow> nat" where
  "first_unset warnings = length (takeWhile (\<lambda>x. x \<noteq> Nil) warnings)"


section \<open>A concrete user and world\<close>

definition demo_row :: User where
  "demo_row = (User_init ''pajlada'')\<lparr>id_user := Some 1, points := 50\<rparr>"

definition demo_redis :: redis where
  "demo_redis =
     \<lparr> zsets = (\<lambda>key. Map.empty), hashes = (\<lambda>key. []), plain_keys = Map.empty,
       commands = [] \<rparr>"

definition demo_world :: world where
  "demo_world =
     \<lparr> db = \<lparr> rows = [demo_row], column_eq = (=) \<rparr>,
       cache = Map.empty,
       kv = demo_redis,
       log = [],
       triggered = [],
       streamer = ''forsen'',
       current_stream_id = Some 7 \<rparr>"

definition demo_state :: state where
  "demo_state = UserCombined_init ''pajlada'' False None demo_world"


text \<open>The concrete user with a given token ledger.\<close>

definition ledger_state :: "(string \<times> rval) list \<Rightarrow> state" where
  "ledger_state entries =
     (fst demo_state,
      (snd demo_state)
        \<lparr>kv := (kv (snd demo_state))
                 \<lparr>hashes := (\<lambda>key. if key = tokens_key ''forsen'' ''pajlada''
                                    then entries else [])\<rparr>\<rparr>)"


text \<open>The concrete user after a save has put its record into the cache.\<close>

definition cached_state :: state where
  "cached_state =
     (fst demo_state, (snd demo_state)\<lparr>cache := UserSQLCache_save demo_row Map.empty\<rparr>)"

text \<open>A store that compares user names without regard to case, and one that compares exactly.\<close>

definition folding_session :: "User list \<Rightarrow> db_session" where
  "folding_session rs = \<lparr> rows = rs, column_eq = (\<lambda>a b. lower a = lower b) \<rparr>"

definition exact_session :: "User list \<Rightarrow> db_session" where
  "exact_session rs = \<lparr> rows = rs, column_eq = (=) \<rparr>"


text \<open>A body of the \<^verbatim>\<open>with\<close> statement that raises at once and touches nothing.\<close>

definition failing_action :: "exc \<Rightarrow> unit action" where
  "failing_action e st = (Raise e, st)"


text \<open>A warning policy with two chances and a base timeout of 10.\<close>

definition demo_policy :: warning_settings where
  "demo_policy =
     \<lparr> total_chances = 2, redis_prefix = ''warn'', base_timeout = 10, length_setting = 600 \<rparr>"


text \<open>The concrete world with a raw name stored for the user.\<close>

definition raw_name_world :: world where
  "raw_name_world =
     demo_world
       \<lparr>kv := demo_redis
               \<lparr>hashes := (\<lambda>key. if key = users_key ''forsen'' ''username_raw''
                                  then [(''pajlada'', Txt ''PajLada'')] else [])\<rparr>\<rparr>"


section \<open>Loading the record and reading the balance\<close>

lemma sql_load_loaded: "loaded st \<Longrightarrow> sql_load st = (Return (), st)"
  by (cases st) (simp add: loaded_def)

lemma get_points_loaded:
  "loaded st \<Longrightarrow> get_points st = (Return (balance st), st)"
  by (cases st) (auto simp: get_points_def and_then_def loaded_def balance_def)

lemma loaded_with_points:
  "loaded st \<Longrightarrow> loaded (with_points v st) \<and> balance (with_points v st) = v"
  by (cases st) (auto simp: loaded_def balance_def)

lemma with_points_frame:
  "debts (fst (with_points v st)) = debts (fst st) \<and> snd (with_points v st) = snd st"
  by (cases st) simp

lemma set_points_loaded:
  "loaded st \<Longrightarrow> set_points v st = (Return (), with_points v st)"
  by (cases st) (auto simp: set_points_def and_then_def loaded_def)

lemma get_points_Return:
  assumes "get_points st = (Return old, st0)"
  shows "loaded st0 \<and> balance st0 = old \<and> debts (fst st0) = debts (fst st)"
  using assms
  by (cases st) (auto simp: get_points_def and_then_def loaded_def balance_def Let_def
        split: if_splits sum.splits option.splits prod.splits outcome.splits)

lemma first_load:
  assumes "get_points st = (Return old, st0)"
  shows "and_then get_points f st = and_then get_points f st0"
proof -
  have "loaded st0" "balance st0 = old" using get_points_Return[OF assms] by auto
  then have "get_points st0 = (Return old, st0)" using get_points_loaded by simp
  then show ?thesis using assms by (simp add: and_then_def)
qed

lemma points_isub_loaded:
  "loaded st \<Longrightarrow> points_isub n st = (Return (), with_points (balance st - n) st)"
  by (simp add: points_isub_def and_then_def get_points_loaded set_points_loaded)

lemma points_iadd_loaded:
  "loaded st \<Longrightarrow> points_iadd n st = (Return (), with_points (balance st + n) st)"
  by (simp add: points_iadd_def and_then_def get_points_loaded set_points_loaded)

lemma spend_points_loaded:
  "loaded st \<Longrightarrow>
   spend_points n st =
     (if n \<le> balance st then (Return True, with_points (balance st - n) st)
      else (Return False, st))"
  by (simp add: spend_points_def and_then_def get_points_loaded points_isub_loaded)

lemma demo_balance: "fst (get_points demo_state) = Return 50"
  by code_simp


section \<open>Spending points\<close>

text \<open>
  Claim C2. Let \<open>old\<close> be the balance that reading \<^verbatim>\<open>points\<close> returns.
  \<^verbatim>\<open>spend_points(n)\<close> returns true exactly when \<open>n \<le> old\<close>. In that case the balance
  read afterwards is \<open>old - n\<close>; otherwise it is still \<open>old\<close>, and the state is the
  one that the read alone leaves.
\<close>

theorem spend_points_spec:
  assumes "get_points st = (Return old, st0)"
  shows "fst (spend_points n st) = Return (n \<le> old) \<and>
         fst (get_points (snd (spend_points n st))) =
           Return (if n \<le> old then old - n else old) \<and>
         snd (spend_points n st) = (if n \<le> old then with_points (old - n) st0 else st0)"
proof -
  have l: "loaded st0" and b: "balance st0 = old"
    using get_points_Return[OF assms] by auto
  have e: "spend_points n st = spend_points n st0"
    unfolding spend_points_def by (rule first_load[OF assms])
  show ?thesis
  proof (cases "n \<le> old")
    case True
    have r: "spend_points n st = (Return True, with_points (old - n) st0)"
      using e spend_points_loaded[OF l] b True by simp
    have "get_points (with_points (old - n) st0) = (Return (old - n), with_points (old - n) st0)"
      using loaded_with_points[OF l, of "old - n"] get_points_loaded by metis
    with r True show ?thesis by simp
  next
    case False
    have r: "spend_points n st = (Return False, st0)"
      using e spend_points_loaded[OF l] b False by simp
    have "get_points st0 = (Return old, st0)"
      using get_points_loaded[OF l] b by simp
    with r False show ?thesis by simp
  qed
qed

theorem spend_points_spec_witness:
  "fst (get_points demo_state) = Return 50 \<and>
   fst (spend_points 20 demo_state) = Return True \<and>
   fst (get_points (snd (spend_points 20 demo_state))) = Return 30 \<and>
   fst (spend_points 70 demo_state) = Return False \<and>
   fst (get_points (snd (spend_points 70 demo_state))) = Return 50"
proof -
  have h: "get_points demo_state = (Return 50, snd (get_points demo_state))"
    using demo_balance by (simp add: prod_eq_iff)
  have a1: "fst (spend_points 20 demo_state) = Return True"
    using spend_points_spec[OF h, of 20, THEN conjunct1] by simp
  have a2: "fst (get_points (snd (spend_points 20 demo_state))) = Return 30"
    using spend_points_spec[OF h, of 20, THEN conjunct2, THEN conjunct1] by simp
  have b1: "fst (spend_points 70 demo_state) = Return False"
    using spend_points_spec[OF h, of 70, THEN conjunct1] by simp
  have b2: "fst (get_points (snd (spend_points 70 demo_state))) = Return 50"
    using spend_points_spec[OF h, of 70, THEN conjunct2, THEN conjunct1] by simp
  show ?thesis using demo_balance a1 a2 b1 b2 by blast
qed


section \<open>Debts\<close>

lemma points_available_loaded:
  "loaded st \<Longrightarrow> points_available st = (Return (balance st - sum_list (debts (fst st))), st)"
  by (cases st) (simp add: points_available_def and_then_def get_points_loaded points_in_debt_def)

lemma can_afford_loaded:
  "loaded st \<Longrightarrow> can_afford n st = (Return (balance st - sum_list (debts (fst st)) \<ge> n), st)"
  by (simp add: can_afford_def and_then_def points_available_loaded)

lemma get_points_debts:
  "get_points (self\<lparr>debts := x\<rparr>, w) =
     (case get_points (self, w) of (r, (s, w')) \<Rightarrow> (r, (s\<lparr>debts := x\<rparr>, w')))"
  by (auto simp: get_points_def and_then_def Let_def split: sum.splits option.splits prod.splits)

lemma get_points_create_debt:
  assumes "get_points st = (Return p, st0)"
  shows "get_points (snd (create_debt d st)) = (Return p, snd (create_debt d st0))"
proof -
  obtain a b where st: "st = (a, b)" by (cases st)
  obtain a0 b0 where st0: "st0 = (a0, b0)" by (cases st0)
  have "debts a0 = debts a" using get_points_Return[OF assms] st st0 by simp
  then show ?thesis using assms st st0 by (simp add: get_points_debts)
qed

lemma create_debts_snoc: "create_debts (ds @ [d]) st = snd (create_debt d (create_debts ds st))"
  by (simp add: create_debts_def)

lemma get_points_create_debts:
  assumes "get_points st = (Return p, st0)"
  shows "get_points (create_debts ds st) = (Return p, create_debts ds st0)"
proof (induction ds rule: rev_induct)
  case Nil
  show ?case using assms by (simp add: create_debts_def)
next
  case (snoc d ds)
  show ?case unfolding create_debts_snoc by (rule get_points_create_debt[OF snoc])
qed

lemma debts_create_debts: "debts (fst (create_debts ds st)) = debts (fst st) @ ds"
proof (induction ds rule: rev_induct)
  case Nil
  show ?case by (simp add: create_debts_def)
next
  case (snoc d ds)
  then show ?case unfolding create_debts_snoc by (cases "create_debts ds st") simp
qed

lemma pay_debt_loaded:
  "loaded st \<Longrightarrow> pay_debt d st = remove_debt d (with_points (balance st - d) st)"
  by (simp add: pay_debt_def and_then_def points_isub_loaded)

lemma pay_debt_first_load:
  assumes "get_points st = (Return p, st0)"
  shows "pay_debt d st = remove_debt d (with_points (p - d) st0)"
proof -
  have l: "loaded st0" "balance st0 = p" using get_points_Return[OF assms] by auto
  have "points_isub d st = points_isub d st0"
    unfolding points_isub_def by (rule first_load[OF assms])
  then have "pay_debt d st = pay_debt d st0" by (simp add: pay_debt_def and_then_def)
  then show ?thesis using pay_debt_loaded[OF l(1)] l(2) by simp
qed

lemma remove_debt_present:
  assumes "d \<in> set (debts (fst st))"
  shows "fst (remove_debt d st) = Return () \<and>
         debts (fst (snd (remove_debt d st))) = remove1 d (debts (fst st)) \<and>
         user_model (fst (snd (remove_debt d st))) = user_model (fst st) \<and>
         model_loaded (fst (snd (remove_debt d st))) = model_loaded (fst st) \<and>
         snd (snd (remove_debt d st)) = snd st"
  using assms by (cases st) simp

lemma remove_debt_absent:
  assumes "d \<notin> set (debts (fst st))"
  shows "fst (remove_debt d st) = Return () \<and>
         fst (snd (remove_debt d st)) = fst st \<and>
         log (snd (snd (remove_debt d st))) =
           log (snd st) @
             [Error (''For some reason the debt '' @ str_int d @
                     '' was not in the list of debts '' @ str_int_list (debts (fst st)))]"
  using assms by (cases st) simp

lemma loaded_cong:
  "user_model (fst s) = user_model (fst t) \<Longrightarrow> model_loaded (fst s) = model_loaded (fst t) \<Longrightarrow>
   loaded s = loaded t \<and> balance s = balance t"
  by (simp add: loaded_def balance_def)

text \<open>
  Claim C6. Let \<open>p\<close> be the balance that reading \<^verbatim>\<open>points\<close> returns. After any
  sequence of \<^verbatim>\<open>create_debt\<close> calls, \<^verbatim>\<open>points_available()\<close> is \<open>p\<close> minus the sum of
  the debts, and \<^verbatim>\<open>can_afford(n)\<close> says whether that number is at least \<open>n\<close>.
  \<^verbatim>\<open>create_debt(d)\<close> followed by \<^verbatim>\<open>pay_debt(d)\<close> returns normally, takes one entry \<open>d\<close>
  out of the list again, so that the list holds the entries it held before, reduces
  the balance by \<open>d\<close> and logs nothing. \<^verbatim>\<open>pay_debt(d)\<close> for an amount that is not in
  the list returns normally as well: the list is as it was, the balance is reduced by
  \<open>d\<close>, and one error record is logged.
\<close>

theorem debts_spec:
  assumes "get_points st = (Return p, st0)"
  shows "fst (points_available (create_debts ds st)) =
           Return (p - sum_list (debts (fst st) @ ds)) \<and>
         fst (can_afford n (create_debts ds st)) =
           Return (p - sum_list (debts (fst st) @ ds) \<ge> n) \<and>
         fst (pay_debt d (snd (create_debt d st))) = Return () \<and>
         debts (fst (snd (pay_debt d (snd (create_debt d st))))) =
           remove1 d (debts (fst st) @ [d]) \<and>
         mset (debts (fst (snd (pay_debt d (snd (create_debt d st)))))) =
           mset (debts (fst st)) \<and>
         fst (get_points (snd (pay_debt d (snd (create_debt d st))))) = Return (p - d) \<and>
         log (snd (snd (pay_debt d (snd (create_debt d st))))) = log (snd st0) \<and>
         (d \<notin> set (debts (fst st)) \<longrightarrow>
            fst (pay_debt d st) = Return () \<and>
            debts (fst (snd (pay_debt d st))) = debts (fst st) \<and>
            fst (get_points (snd (pay_debt d st))) = Return (p - d) \<and>
            log (snd (snd (pay_debt d st))) =
              log (snd st0) @
                [Error (''For some reason the debt '' @ str_int d @
                        '' was not in the list of debts '' @ str_int_list (debts (fst st)))])"
proof -
  have l0: "loaded st0" and b0: "balance st0 = p" and d0: "debts (fst st0) = debts (fst st)"
    using get_points_Return[OF assms] by auto
  have g: "get_points (create_debts ds st) = (Return p, create_debts ds st0)"
    by (rule get_points_create_debts[OF assms])
  have lg: "loaded (create_debts ds st0)" "balance (create_debts ds st0) = p"
    using get_points_Return[OF g] by auto
  have dg: "debts (fst (create_debts ds st0)) = debts (fst st) @ ds"
    using d0 by (simp add: debts_create_debts)
  have pa: "points_available (create_debts ds st) = points_available (create_debts ds st0)"
    unfolding points_available_def by (rule first_load[OF g])
  then have A: "fst (points_available (create_debts ds st)) =
           Return (p - sum_list (debts (fst st) @ ds))"
    using points_available_loaded[OF lg(1)] lg(2) dg by simp
  have "can_afford n (create_debts ds st) = can_afford n (create_debts ds st0)"
    using pa by (simp add: can_afford_def and_then_def)
  then have B: "fst (can_afford n (create_debts ds st)) =
           Return (p - sum_list (debts (fst st) @ ds) \<ge> n)"
    using can_afford_loaded[OF lg(1)] lg(2) dg by simp
  let ?s1 = "snd (create_debt d st0)"
  let ?s2 = "with_points (p - d) ?s1"
  let ?s3 = "snd (remove_debt d ?s2)"
  have g1: "get_points (snd (create_debt d st)) = (Return p, ?s1)"
    by (rule get_points_create_debt[OF assms])
  have l1: "loaded ?s1" using get_points_Return[OF g1] by simp
  have ds1: "debts (fst ?s1) = debts (fst st) @ [d]" using d0 by (cases st0) simp
  have w1: "snd ?s1 = snd st0" by (cases st0) simp
  have l2: "loaded ?s2" "balance ?s2 = p - d" using loaded_with_points[OF l1] by auto
  have f2: "debts (fst ?s2) = debts (fst st) @ [d]" "snd ?s2 = snd st0"
    using with_points_frame[of "p - d" ?s1] ds1 w1 by auto
  have in2: "d \<in> set (debts (fst ?s2))" using f2(1) by simp
  note r = remove_debt_present[OF in2]
  have pd: "pay_debt d (snd (create_debt d st)) = remove_debt d ?s2"
    by (rule pay_debt_first_load[OF g1])
  have l3: "loaded ?s3" "balance ?s3 = p - d"
    using loaded_cong[of ?s3 ?s2] r l2 by auto
  have C1: "fst (pay_debt d (snd (create_debt d st))) = Return ()" using pd r by simp
  have C2: "debts (fst (snd (pay_debt d (snd (create_debt d st))))) =
           remove1 d (debts (fst st) @ [d])" using pd r f2(1) by simp
  have C3: "mset (debts (fst (snd (pay_debt d (snd (create_debt d st)))))) =
           mset (debts (fst st))" unfolding C2 by simp
  have C4: "fst (get_points (snd (pay_debt d (snd (create_debt d st))))) = Return (p - d)"
    using pd get_points_loaded[OF l3(1)] l3(2) by simp
  have C5: "log (snd (snd (pay_debt d (snd (create_debt d st))))) = log (snd st0)"
    using pd r f2(2) by simp
  have D: "d \<notin> set (debts (fst st)) \<longrightarrow>
            fst (pay_debt d st) = Return () \<and>
            debts (fst (snd (pay_debt d st))) = debts (fst st) \<and>
            fst (get_points (snd (pay_debt d st))) = Return (p - d) \<and>
            log (snd (snd (pay_debt d st))) =
              log (snd st0) @
                [Error (''For some reason the debt '' @ str_int d @
                        '' was not in the list of debts '' @ str_int_list (debts (fst st)))]"
  proof
    assume notin: "d \<notin> set (debts (fst st))"
    let ?t2 = "with_points (p - d) st0"
    let ?t3 = "snd (remove_debt d ?t2)"
    have k2: "loaded ?t2" "balance ?t2 = p - d" using loaded_with_points[OF l0] by auto
    have h2: "debts (fst ?t2) = debts (fst st)" "snd ?t2 = snd st0"
      using with_points_frame[of "p - d" st0] d0 by auto
    have "d \<notin> set (debts (fst ?t2))" using notin h2(1) by simp
    note q = remove_debt_absent[OF this]
    have e: "pay_debt d st = remove_debt d ?t2" by (rule pay_debt_first_load[OF assms])
    have k3: "loaded ?t3" "balance ?t3 = p - d"
      using loaded_cong[of ?t3 ?t2] q k2 by auto
    show "fst (pay_debt d st) = Return () \<and>
            debts (fst (snd (pay_debt d st))) = debts (fst st) \<and>
            fst (get_points (snd (pay_debt d st))) = Return (p - d) \<and>
            log (snd (snd (pay_debt d st))) =
              log (snd st0) @
                [Error (''For some reason the debt '' @ str_int d @
                        '' was not in the list of debts '' @ str_int_list (debts (fst st)))]"
      using e q h2 get_points_loaded[OF k3(1)] k3(2) by simp
  qed
  show ?thesis using A B C1 C2 C3 C4 C5 D by blast
qed

lemma demo_debts: "debts (fst demo_state) = []"
  by code_simp

theorem debts_spec_witness:
  "fst (get_points demo_state) = Return 50 \<and>
   fst (points_available (create_debts [10, 15] demo_state)) = Return 25 \<and>
   fst (can_afford 25 (create_debts [10, 15] demo_state)) = Return True \<and>
   fst (can_afford 26 (create_debts [10, 15] demo_state)) = Return False \<and>
   debts (fst (snd (pay_debt 10 (snd (create_debt 10 demo_state))))) = [] \<and>
   fst (get_points (snd (pay_debt 10 (snd (create_debt 10 demo_state))))) = Return 40 \<and>
   5 \<notin> set (debts (fst demo_state)) \<and>
   fst (pay_debt 5 demo_state) = Return () \<and>
   debts (fst (snd (pay_debt 5 demo_state))) = [] \<and>
   fst (get_points (snd (pay_debt 5 demo_state))) = Return 45"
proof -
  have h: "get_points demo_state = (Return 50, snd (get_points demo_state))"
    using demo_balance by (simp add: prod_eq_iff)
  note a = debts_spec[OF h, of "[10, 15]" 25 10]
  note b = debts_spec[OF h, of "[10, 15]" 26 5]
  have a1: "fst (points_available (create_debts [10, 15] demo_state)) = Return 25"
    using a[THEN conjunct1] demo_debts by simp
  have a2: "fst (can_afford 25 (create_debts [10, 15] demo_state)) = Return True"
    using a[THEN conjunct2, THEN conjunct1] demo_debts by simp
  have a3: "fst (can_afford 26 (create_debts [10, 15] demo_state)) = Return False"
    using b[THEN conjunct2, THEN conjunct1] demo_debts by simp
  have a4: "debts (fst (snd (pay_debt 10 (snd (create_debt 10 demo_state))))) = []"
    using a[THEN conjunct2, THEN conjunct2, THEN conjunct2, THEN conjunct1] demo_debts by simp
  have a5: "fst (get_points (snd (pay_debt 10 (snd (create_debt 10 demo_state))))) = Return 40"
    using a[THEN conjunct2, THEN conjunct2, THEN conjunct2, THEN conjunct2, THEN conjunct2,
            THEN conjunct1] by simp
  have n: "5 \<notin> set (debts (fst demo_state))" using demo_debts by simp
  note c = b[THEN conjunct2, THEN conjunct2, THEN conjunct2, THEN conjunct2, THEN conjunct2,
             THEN conjunct2, THEN conjunct2, rule_format, OF n]
  have c1: "fst (pay_debt 5 demo_state) = Return ()" using c by simp
  have c2: "debts (fst (snd (pay_debt 5 demo_state))) = []" using c demo_debts by simp
  have c3: "fst (get_points (snd (pay_debt 5 demo_state))) = Return 45" using c by simp
  show ?thesis using demo_balance a1 a2 a3 a4 a5 n c1 c2 c3 by blast
qed


section \<open>The token ledger\<close>

lemma hashes_hset: "hashes (hset key f v r) key = AList.update f v (hashes r key)"
  by (simp add: hset_def sent_def)

lemma get_tokens_loop_sum:
  "fst (get_tokens_loop u vs acc lg) =
     acc + sum_list (map (\<lambda>v. case py_int (Bulk v) of None \<Rightarrow> 0 | Some n \<Rightarrow> n) vs)"
  by (induction vs arbitrary: acc lg) (auto split: option.splits)

lemma get_tokens_sum: "fst (get_tokens st) = Return (token_sum (ledger st))"
proof -
  obtain self w where st: "st = (self, w)" by (cases st)
  show ?thesis
    using get_tokens_loop_sum[of "username self"
        "map snd (hashes (kv w) (tokens_key (streamer w) (username self)))" 0 "log w"]
    by (auto simp: st token_sum_def ledger_def hgetall_def split: prod.splits)
qed

lemma non_negative_Cons:
  "non_negative ((f, v) # xs) = ((\<exists>n. v = Num n \<and> 0 \<le> n) \<and> non_negative xs)"
  by (auto simp: non_negative_def split: rval.splits)

lemma token_sum_Cons: "token_sum ((f, Num n) # xs) = n + token_sum xs"
  by (simp add: token_sum_def)

lemma token_sum_nonneg: "non_negative xs \<Longrightarrow> 0 \<le> token_sum xs"
proof (induction xs)
  case Nil
  show ?case by (simp add: token_sum_def)
next
  case (Cons a xs)
  obtain f v where a: "a = (f, v)" by (cases a)
  with Cons show ?case by (auto simp: non_negative_Cons token_sum_Cons)
qed

lemma token_sum_zero:
  "non_negative xs \<Longrightarrow> token_sum xs = 0 \<Longrightarrow> \<forall>(f, v) \<in> set xs. v = Num 0"
proof (induction xs)
  case Nil
  then show ?case by simp
next
  case (Cons a xs)
  obtain f v where a: "a = (f, v)" by (cases a)
  from Cons.prems(1) a obtain n where v: "v = Num n" "0 \<le> n" and rest: "non_negative xs"
    by (auto simp: non_negative_Cons)
  have s: "token_sum (a # xs) = n + token_sum xs" using a v by (simp add: token_sum_Cons)
  have "0 \<le> token_sum xs" by (rule token_sum_nonneg[OF rest])
  with s Cons.prems(2) v have "n = 0" "token_sum xs = 0" by auto
  with Cons.IH[OF rest] a v show ?case by simp
qed

lemma loop_distinct:
  "distinct (map fst (hashes r key)) \<Longrightarrow>
   distinct (map fst (hashes (snd (spend_tokens_loop key rest T r)) key))"
proof (induction rest arbitrary: T r)
  case Nil
  then show ?case by simp
next
  case (Cons a rest)
  obtain f v where a: "a = (f, v)" by (cases a)
  have d2: "distinct (map fst (hashes (hset key f x r) key))" for x
    using Cons.prems by (simp add: hashes_hset distinct_update)
  show ?case using Cons.IH[OF Cons.prems] Cons.IH[OF d2] d2
    by (auto simp: a Let_def split: option.splits)
qed

lemma loop_drain:
  assumes "distinct (map fst rest)"
    and "non_negative rest"
    and "\<forall>(f, v) \<in> set rest. map_of (hashes r key) f = Some v"
    and "\<forall>f v. map_of (hashes r key) f = Some v \<longrightarrow> f \<notin> fst ` set rest \<longrightarrow> v = Num 0"
    and "token_sum rest \<le> T" and "0 < T"
  shows "fst (spend_tokens_loop key rest T r) = (T = token_sum rest) \<and>
         (\<forall>f v. map_of (hashes (snd (spend_tokens_loop key rest T r)) key) f = Some v \<longrightarrow>
                v = Num 0)"
  using assms
proof (induction rest arbitrary: T r)
  case Nil
  then show ?case by (auto simp: token_sum_def)
next
  case (Cons a rest)
  obtain f v where a: "a = (f, v)" by (cases a)
  from Cons.prems(2) a obtain n where v: "v = Num n" "0 \<le> n" and nn: "non_negative rest"
    by (auto simp: non_negative_Cons)
  have dist: "distinct (map fst rest)" "f \<notin> fst ` set rest" using Cons.prems(1) a by auto
  have s: "token_sum (a # rest) = n + token_sum rest" using a v by (simp add: token_sum_Cons)
  have rnn: "0 \<le> token_sum rest" by (rule token_sum_nonneg[OF nn])
  have here: "map_of (hashes r key) f = Some (Num n)" using Cons.prems(3) a v by simp
  show ?case
  proof (cases "n = 0")
    case True
    have step: "spend_tokens_loop key (a # rest) T r = spend_tokens_loop key rest T r"
      using a v True by simp
    have c: "\<forall>(f, v) \<in> set rest. map_of (hashes r key) f = Some v" using Cons.prems(3) by simp
    have o: "\<forall>g u. map_of (hashes r key) g = Some u \<longrightarrow> g \<notin> fst ` set rest \<longrightarrow> u = Num 0"
    proof (intro allI impI)
      fix g u assume g: "map_of (hashes r key) g = Some u" "g \<notin> fst ` set rest"
      show "u = Num 0"
      proof (cases "g = f")
        case True
        with g here \<open>n = 0\<close> show ?thesis by simp
      next
        case False
        then have "g \<notin> fst ` set (a # rest)" using g(2) a by simp
        with Cons.prems(4) g(1) show ?thesis by blast
      qed
    qed
    have "token_sum rest \<le> T" using Cons.prems(5) s True by simp
    from Cons.IH[OF dist(1) nn c o this Cons.prems(6)] step s True show ?thesis by simp
  next
    case False
    have nT: "n \<le> T" using Cons.prems(5) s rnn by simp
    let ?r2 = "hset key f (Num 0) r"
    have h2: "hashes ?r2 key = AList.update f (Num 0) (hashes r key)" by (rule hashes_hset)
    have c: "\<forall>(g, u) \<in> set rest. map_of (hashes ?r2 key) g = Some u"
    proof (clarify)
      fix g u assume gu: "(g, u) \<in> set rest"
      then have "g \<noteq> f" using dist(2) by force
      moreover have "map_of (hashes r key) g = Some u" using Cons.prems(3) gu by auto
      ultimately show "map_of (hashes ?r2 key) g = Some u"
        unfolding h2 by (simp add: update_conv')
    qed
    have o: "\<forall>g u. map_of (hashes ?r2 key) g = Some u \<longrightarrow> g \<notin> fst ` set rest \<longrightarrow> u = Num 0"
    proof (intro allI impI)
      fix g u assume g: "map_of (hashes ?r2 key) g = Some u" "g \<notin> fst ` set rest"
      show "u = Num 0"
      proof (cases "g = f")
        case True
        with g(1) show ?thesis unfolding h2 by (simp add: update_conv')
      next
        case False
        then have "g \<notin> fst ` set (a # rest)" using g(2) a by simp
        moreover have "map_of (hashes r key) g = Some u"
          using g(1) False unfolding h2 by (simp add: update_conv')
        ultimately show ?thesis using Cons.prems(4) by blast
      qed
    qed
    show ?thesis
    proof (cases "T = n")
      case True
      have step: "spend_tokens_loop key (a # rest) T r = (True, ?r2)"
        using a v \<open>n \<noteq> 0\<close> True by (simp add: Let_def)
      have z: "token_sum rest = 0" using Cons.prems(5) s rnn True by simp
      have zs: "\<forall>(g, u) \<in> set rest. u = Num 0" by (rule token_sum_zero[OF nn z])
      have all0: "\<forall>g u. map_of (hashes ?r2 key) g = Some u \<longrightarrow> u = Num 0"
      proof (intro allI impI)
        fix g u assume g: "map_of (hashes ?r2 key) g = Some u"
        show "u = Num 0"
        proof (cases "g \<in> fst ` set rest")
          case True
          then obtain u' where "(g, u') \<in> set rest" by auto
          with c zs g show ?thesis by fastforce
        next
          case False
          with o g show ?thesis by blast
        qed
      qed
      show ?thesis using step s z True all0 by simp
    next
      case False
      have Tn: "min T n = n" using nT by simp
      have step: "spend_tokens_loop key (a # rest) T r =
                  spend_tokens_loop key rest (T - n) ?r2"
        using a v \<open>n \<noteq> 0\<close> False Tn by (simp add: Let_def)
      have le: "token_sum rest \<le> T - n" using Cons.prems(5) s by simp
      have pos: "0 < T - n" using nT False by simp
      from Cons.IH[OF dist(1) nn c o le pos] step s show ?thesis by auto
    qed
  qed
qed

lemma spend_tokens_unfold:
  "spend_tokens T st =
     (Return (fst (spend_tokens_loop (tokens_key (streamer (snd st)) (username (fst st)))
                     (ledger st) T
                     (sent (HGETALL (tokens_key (streamer (snd st)) (username (fst st))))
                        (kv (snd st))))),
      (fst st,
       (snd st)\<lparr>kv := snd (spend_tokens_loop (tokens_key (streamer (snd st)) (username (fst st)))
                     (ledger st) T
                     (sent (HGETALL (tokens_key (streamer (snd st)) (username (fst st))))
                        (kv (snd st))))\<rparr>))"
  by (cases st) (simp add: ledger_def hgetall_def Let_def split: prod.splits)

lemma spend_tokens_drain_aux:
  assumes wf: "well_formed_ledger (ledger st)"
    and le: "token_sum (ledger st) \<le> T" and pos: "0 < T"
  shows "fst (spend_tokens T st) = Return (T = token_sum (ledger st)) \<and>
         drained (ledger (snd (spend_tokens T st)))"
proof -
  let ?key = "tokens_key (streamer (snd st)) (username (fst st))"
  let ?r = "sent (HGETALL ?key) (kv (snd st))"
  have hr: "hashes ?r ?key = ledger st" by (simp add: sent_def ledger_def)
  have d: "distinct (map fst (ledger st))" and nn: "non_negative (ledger st)"
    using wf by (auto simp: well_formed_ledger_def)
  have c: "\<forall>(f, v) \<in> set (ledger st). map_of (hashes ?r ?key) f = Some v"
    unfolding hr using d by auto
  have o: "\<forall>f v. map_of (hashes ?r ?key) f = Some v \<longrightarrow> f \<notin> fst ` set (ledger st) \<longrightarrow> v = Num 0"
  proof (intro allI impI)
    fix f v assume "map_of (hashes ?r ?key) f = Some v" "f \<notin> fst ` set (ledger st)"
    then have "(f, v) \<in> set (ledger st)" "f \<notin> fst ` set (ledger st)"
      unfolding hr by (auto dest: map_of_SomeD)
    then have False by force
    then show "v = Num 0" ..
  qed
  note L = loop_drain[OF d nn c o le pos]
  have d2: "distinct (map fst (hashes (snd (spend_tokens_loop ?key (ledger st) T ?r)) ?key))"
    by (rule loop_distinct) (simp add: hr d)
  have led: "ledger (snd (spend_tokens T st)) =
        hashes (snd (spend_tokens_loop ?key (ledger st) T ?r)) ?key"
    by (subst spend_tokens_unfold) (simp add: ledger_def)
  have "drained (ledger (snd (spend_tokens T st)))"
    unfolding led drained_def list_all_iff
  proof (clarify)
    fix f v assume "(f, v) \<in> set (hashes (snd (spend_tokens_loop ?key (ledger st) T ?r)) ?key)"
    then have "map_of (hashes (snd (spend_tokens_loop ?key (ledger st) T ?r)) ?key) f = Some v"
      using d2 by simp
    then show "v = Num 0" using L by blast
  qed
  moreover have "fst (spend_tokens T st) = Return (T = token_sum (ledger st))"
    by (subst spend_tokens_unfold) (simp add: L)
  ultimately show ?thesis by simp
qed

text \<open>
  Claim C3, as the code has it. For a ledger with one entry for each session, each a
  number that is not negative, and \<open>tot\<close> the sum that \<^verbatim>\<open>get_tokens\<close> returns:
  when \<open>tot\<close> is positive, \<^verbatim>\<open>spend_tokens(tot)\<close> returns true and leaves every
  entry at 0; \<^verbatim>\<open>spend_tokens(tot + 1)\<close> returns false and leaves every entry at 0
  as well, the decrements written to the store and not taken back.
\<close>

theorem spend_tokens_drain:
  assumes "well_formed_ledger (ledger st)"
    and "fst (get_tokens st) = Return tot"
  shows "(0 < tot \<longrightarrow>
            fst (spend_tokens tot st) = Return True \<and>
            drained (ledger (snd (spend_tokens tot st)))) \<and>
         fst (spend_tokens (tot + 1) st) = Return False \<and>
         drained (ledger (snd (spend_tokens (tot + 1) st)))"
proof -
  have t: "tot = token_sum (ledger st)" using assms(2) by (simp add: get_tokens_sum)
  have "non_negative (ledger st)" using assms(1) by (simp add: well_formed_ledger_def)
  then have nn: "0 \<le> tot" unfolding t by (rule token_sum_nonneg)
  have a: "0 < tot \<longrightarrow>
            fst (spend_tokens tot st) = Return True \<and>
            drained (ledger (snd (spend_tokens tot st)))"
    using spend_tokens_drain_aux[OF assms(1), of tot] t by simp
  have b: "fst (spend_tokens (tot + 1) st) = Return False \<and>
         drained (ledger (snd (spend_tokens (tot + 1) st)))"
    using spend_tokens_drain_aux[OF assms(1), of "tot + 1"] t nn by simp
  show ?thesis using a b by blast
qed

theorem spend_tokens_drain_witness:
  "well_formed_ledger (ledger (ledger_state [(''5'', Num 3), (''6'', Num 0), (''7'', Num 4)])) \<and>
   fst (get_tokens (ledger_state [(''5'', Num 3), (''6'', Num 0), (''7'', Num 4)])) = Return 7 \<and>
   fst (spend_tokens 7 (ledger_state [(''5'', Num 3), (''6'', Num 0), (''7'', Num 4)])) =
     Return True \<and>
   drained (ledger (snd (spend_tokens 7
     (ledger_state [(''5'', Num 3), (''6'', Num 0), (''7'', Num 4)])))) \<and>
   fst (spend_tokens 8 (ledger_state [(''5'', Num 3), (''6'', Num 0), (''7'', Num 4)])) =
     Return False \<and>
   drained (ledger (snd (spend_tokens 8
     (ledger_state [(''5'', Num 3), (''6'', Num 0), (''7'', Num 4)]))))"
proof -
  let ?st = "ledger_state [(''5'', Num 3), (''6'', Num 0), (''7'', Num 4)]"
  have w: "well_formed_ledger (ledger ?st)" by code_simp
  have g: "fst (get_tokens ?st) = Return 7" by code_simp
  show ?thesis using spend_tokens_drain[OF w g] w g by simp
qed

text \<open>
  The claim as it is written fails on a ledger whose sum is 0, where spending the sum
  returns false, and on a ledger with a negative entry, where spending the sum returns
  true and leaves entries that are not 0.
\<close>

theorem spend_tokens_counterexample:
  "fst (get_tokens (ledger_state [(''5'', Num 0)])) = Return 0 \<and>
   fst (spend_tokens 0 (ledger_state [(''5'', Num 0)])) = Return False \<and>
   fst (get_tokens (ledger_state [(''5'', Num 10), (''6'', Num (- 4))])) = Return 6 \<and>
   fst (spend_tokens 6 (ledger_state [(''5'', Num 10), (''6'', Num (- 4))])) = Return True \<and>
   ledger (snd (spend_tokens 6 (ledger_state [(''5'', Num 10), (''6'', Num (- 4))]))) =
     [(''5'', Num 4), (''6'', Num (- 4))]"
  by code_simp


section \<open>Awarding tokens\<close>

text \<open>
  Claim C4. While a stream is live and the ledger has no entry for it, a first
  \<^verbatim>\<open>award_tokens(a)\<close> without force stores \<open>a\<close>, triggers the handler and returns
  true. A second call without force returns false, triggers nothing and leaves the
  entry at \<open>a\<close>; a second call with force returns true and sets the entry to the new
  amount. While no stream is live, a call returns false and changes nothing.
\<close>

theorem award_tokens_spec:
  assumes "current_stream_id (snd st) = Some sid"
    and "map_of (ledger st) (str_int sid) = None"
  shows "fst (award_tokens a False st) = Return True \<and>
         map_of (ledger (snd (award_tokens a False st))) (str_int sid) = Some (Num a) \<and>
         triggered (snd (snd (award_tokens a False st))) =
           triggered (snd st) @ [(''on_user_gain_tokens'', username (fst st), a)] \<and>
         fst (award_tokens b False (snd (award_tokens a False st))) = Return False \<and>
         triggered (snd (snd (award_tokens b False (snd (award_tokens a False st))))) =
           triggered (snd (snd (award_tokens a False st))) \<and>
         ledger (snd (award_tokens b False (snd (award_tokens a False st)))) =
           ledger (snd (award_tokens a False st)) \<and>
         fst (award_tokens b True (snd (award_tokens a False st))) = Return True \<and>
         map_of (ledger (snd (award_tokens b True (snd (award_tokens a False st)))))
           (str_int sid) = Some (Num b) \<and>
         award_tokens a force (fst st, (snd st)\<lparr>current_stream_id := None\<rparr>) =
           (Return False, (fst st, (snd st)\<lparr>current_stream_id := None\<rparr>))"
proof -
  obtain self w where st: "st = (self, w)" by (cases st)
  show ?thesis
    using assms unfolding st
    by (simp add: ledger_def hsetnx_def hset_def sent_def update_conv' Let_def)
qed

theorem award_tokens_spec_witness:
  "current_stream_id (snd demo_state) = Some 7 \<and>
   map_of (ledger demo_state) (str_int 7) = None \<and>
   fst (award_tokens 3 False demo_state) = Return True \<and>
   map_of (ledger (snd (award_tokens 3 False demo_state))) (str_int 7) = Some (Num 3) \<and>
   fst (award_tokens 9 False (snd (award_tokens 3 False demo_state))) = Return False \<and>
   map_of (ledger (snd (award_tokens 9 False (snd (award_tokens 3 False demo_state)))))
     (str_int 7) = Some (Num 3) \<and>
   fst (award_tokens 9 True (snd (award_tokens 3 False demo_state))) = Return True \<and>
   map_of (ledger (snd (award_tokens 9 True (snd (award_tokens 3 False demo_state)))))
     (str_int 7) = Some (Num 9)"
proof -
  have s: "current_stream_id (snd demo_state) = Some 7" by code_simp
  have n: "map_of (ledger demo_state) (str_int 7) = None" by code_simp
  show ?thesis using award_tokens_spec[OF s n, of 3 9] s n by simp
qed


section \<open>Writing the subscriber flag\<close>

text \<open>
  Claim C8. When the cache holds a subscriber value for the user name and the value
  written equals it, the setter returns at once: the object, with its loaded flag and
  its record, and the world, with the cache, the relational session, the key-value
  store and the log, are the ones it was given.
\<close>

theorem set_subscriber_cached:
  assumes "UserSQLCache_get_subscriber (cache (snd st)) (username (fst st)) = Some v"
  shows "set_subscriber v st = (Return (), st)"
  using assms by (cases st) simp

theorem set_subscriber_cached_witness:
  "UserSQLCache_get_subscriber (cache (snd cached_state)) (username (fst cached_state)) =
     Some False \<and>
   set_subscriber False cached_state = (Return (), cached_state)"
proof -
  have h: "UserSQLCache_get_subscriber (cache (snd cached_state)) (username (fst cached_state)) =
     Some False" by code_simp
  show ?thesis using set_subscriber_cached[OF h] h by simp
qed


section \<open>Constructing the combined user\<close>

text \<open>
  Claim C10. The constructor sends one command to the key-value store, through the
  setter of \<^verbatim>\<open>username_raw\<close>, and does so before anything is loaded: afterwards the
  key-value fields are not loaded, the record is loaded only if one was passed in, and
  the session and the log are untouched. The setter sends \<^verbatim>\<open>hset\<close> when the value
  differs from \<^verbatim>\<open>self.username\<close>, and the field then holds the value; it sends
  \<^verbatim>\<open>hdel\<close> when the value equals it, and the field is then gone. In the constructor
  both are the argument, so the command is the \<^verbatim>\<open>hdel\<close>: whatever raw name the
  store held for the user is deleted, and nothing else in the store changes.
\<close>

theorem UserCombined_init_writes:
  "commands (kv (snd (UserCombined_init name given model w))) =
     commands (kv w) @ [HDEL (users_key (streamer w) ''username_raw'') name] \<and>
   hashes (kv (snd (UserCombined_init name given model w))) =
     (hashes (kv w))
       (users_key (streamer w) ''username_raw'' :=
          AList.delete name (hashes (kv w) (users_key (streamer w) ''username_raw''))) \<and>
   map_of (hashes (kv (snd (UserCombined_init name given model w)))
             (users_key (streamer w) ''username_raw'')) name = None \<and>
   zsets (kv (snd (UserCombined_init name given model w))) = zsets (kv w) \<and>
   plain_keys (kv (snd (UserCombined_init name given model w))) = plain_keys (kv w) \<and>
   commands (kv (snd (snd (set_username_raw v (self, w))))) =
     commands (kv w) @
       [if v \<noteq> username self
        then HSET (users_key (streamer w) ''username_raw'') (username self) (Txt v)
        else HDEL (users_key (streamer w) ''username_raw'') (username self)] \<and>
   hashes (kv (snd (snd (set_username_raw v (self, w))))) =
     (hashes (kv w))
       (users_key (streamer w) ''username_raw'' :=
          (if v \<noteq> username self
           then AList.update (username self) (Txt v)
                  (hashes (kv w) (users_key (streamer w) ''username_raw''))
           else AList.delete (username self)
                  (hashes (kv w) (users_key (streamer w) ''username_raw'')))) \<and>
   map_of (hashes (kv (snd (snd (set_username_raw v (self, w)))))
             (users_key (streamer w) ''username_raw'')) (username self) =
     (if v \<noteq> username self then Some (Txt v) else None) \<and>
   redis_loaded (fst (UserCombined_init name given model w)) = False \<and>
   values_dict (fst (UserCombined_init name given model w)) = [''username_raw'' \<mapsto> PyStr name] \<and>
   model_loaded (fst (UserCombined_init name given model w)) = (model \<noteq> None) \<and>
   user_model (fst (UserCombined_init name given model w)) = model \<and>
   db (snd (UserCombined_init name given model w)) = db w \<and>
   log (snd (UserCombined_init name given model w)) = log w"
  by (simp add: UserCombined_init_def UserSQL_init_def UserRedis_init_def blank_object_def
        hdel_def hset_def sent_def Let_def update_conv' delete_conv')

lemma raw_name_stored:
  "map_of (hashes (kv raw_name_world) (users_key (streamer raw_name_world) ''username_raw''))
     ''pajlada'' = Some (Txt ''PajLada'')"
  by code_simp

lemma raw_name_deleted:
  "AList.delete ''pajlada''
     (hashes (kv raw_name_world) (users_key (streamer raw_name_world) ''username_raw'')) = []"
  by code_simp

theorem UserCombined_init_writes_witness:
  "map_of (hashes (kv raw_name_world) (users_key (streamer raw_name_world) ''username_raw''))
     ''pajlada'' = Some (Txt ''PajLada'') \<and>
   hashes (kv (snd (UserCombined_init ''pajlada'' False None raw_name_world)))
     (users_key (streamer raw_name_world) ''username_raw'') = [] \<and>
   map_of (hashes (kv (snd (UserCombined_init ''pajlada'' False None raw_name_world)))
             (users_key (streamer raw_name_world) ''username_raw'')) ''pajlada'' = None"
proof -
  note t = UserCombined_init_writes[of "''pajlada''" False None raw_name_world]
  have a: "hashes (kv (snd (UserCombined_init ''pajlada'' False None raw_name_world)))
     (users_key (streamer raw_name_world) ''username_raw'') = []"
    using t[THEN conjunct2, THEN conjunct1] raw_name_deleted by simp
  have b: "map_of (hashes (kv (snd (UserCombined_init ''pajlada'' False None raw_name_world)))
             (users_key (streamer raw_name_world) ''username_raw'')) ''pajlada'' = None"
    using t[THEN conjunct2, THEN conjunct2, THEN conjunct1] .
  show ?thesis using raw_name_stored a b by blast
qed


section \<open>Query or create\<close>

lemma filter_unique:
  "distinct (map g xs) \<Longrightarrow> r \<in> set xs \<Longrightarrow> filter (\<lambda>u. g u = g r) xs = [r]"
proof (induction xs)
  case Nil
  then show ?case by simp
next
  case (Cons x xs)
  show ?case
  proof (cases "x = r")
    case True
    have "g r \<notin> g ` set xs" using Cons.prems(1) True by simp
    then have "\<forall>u \<in> set xs. g u \<noteq> g r" by (metis imageI)
    then have "filter (\<lambda>u. g u = g r) xs = []" by (simp add: filter_empty_conv)
    with True show ?thesis by simp
  next
    case False
    then have r: "r \<in> set xs" using Cons.prems(2) by simp
    have "g x \<notin> g ` set xs" using Cons.prems(1) by simp
    then have "g x \<noteq> g r" using r by (metis imageI)
    moreover have "filter (\<lambda>u. g u = g r) xs = [r]" using Cons.IH r Cons.prems(1) by simp
    ultimately show ?thesis by simp
  qed
qed

text \<open>
  Claim C7, as the code has it. When the store's lookup finds no row, a new record is
  built with the lower-cased user name, level 100, no points, not a subscriber and
  both minute counters 0, and it is added to the session. When the lookup finds one
  row, that row is returned and nothing is added. The name goes to the store as it was
  given, so whether another spelling of an existing name is found is the store's
  comparison: under a comparison that ignores case, over rows whose names differ beyond
  case, every spelling of an existing name finds the existing row.
\<close>

theorem select_or_create_spec:
  "(filter_by_username s name = [] \<longrightarrow>
      select_or_create s name = Inr (User_init name, s\<lparr>rows := rows s @ [User_init name]\<rparr>)) \<and>
   username_user (User_init name) = lower name \<and>
   username_raw_user (User_init name) = name \<and>
   level (User_init name) = 100 \<and>
   points (User_init name) = 0 \<and>
   subscriber (User_init name) = False \<and>
   minutes_in_chat_online (User_init name) = 0 \<and>
   minutes_in_chat_offline (User_init name) = 0 \<and>
   (filter_by_username s name = [r] \<longrightarrow> select_or_create s name = Inr (r, s)) \<and>
   (column_eq s = (\<lambda>a b. lower a = lower b) \<and>
    distinct (map (\<lambda>u. lower (username_user u)) (rows s)) \<and>
    r \<in> set (rows s) \<and> lower name = lower (username_user r) \<longrightarrow>
      select_or_create s name = Inr (r, s))"
proof -
  have a: "filter_by_username s name = [] \<longrightarrow>
      select_or_create s name = Inr (User_init name, s\<lparr>rows := rows s @ [User_init name]\<rparr>)"
    by (simp add: select_or_create_def one_or_none_def Let_def)
  have b: "filter_by_username s name = [r] \<longrightarrow> select_or_create s name = Inr (r, s)"
    by (simp add: select_or_create_def one_or_none_def)
  have c: "column_eq s = (\<lambda>a b. lower a = lower b) \<and>
    distinct (map (\<lambda>u. lower (username_user u)) (rows s)) \<and>
    r \<in> set (rows s) \<and> lower name = lower (username_user r) \<longrightarrow>
      select_or_create s name = Inr (r, s)"
  proof
    assume h: "column_eq s = (\<lambda>a b. lower a = lower b) \<and>
      distinct (map (\<lambda>u. lower (username_user u)) (rows s)) \<and>
      r \<in> set (rows s) \<and> lower name = lower (username_user r)"
    then have "filter_by_username s name =
        filter (\<lambda>u. lower (username_user u) = lower (username_user r)) (rows s)"
      by (simp add: filter_by_username_def)
    also have "\<dots> = [r]"
      using filter_unique[of "\<lambda>u. lower (username_user u)" "rows s" r] h by simp
    finally show "select_or_create s name = Inr (r, s)" using b by simp
  qed
  show ?thesis using a b c by (simp add: User_init_def)
qed

theorem select_or_create_spec_witness:
  "filter_by_username (exact_session [demo_row]) ''forsen'' = [] \<and>
   select_or_create (exact_session [demo_row]) ''forsen'' =
     Inr (User_init ''forsen'', exact_session [demo_row, User_init ''forsen'']) \<and>
   filter_by_username (exact_session [demo_row]) ''pajlada'' = [demo_row] \<and>
   select_or_create (exact_session [demo_row]) ''pajlada'' =
     Inr (demo_row, exact_session [demo_row]) \<and>
   distinct (map (\<lambda>u. lower (username_user u)) (rows (folding_session [demo_row]))) \<and>
   demo_row \<in> set (rows (folding_session [demo_row])) \<and>
   lower ''PajLada'' = lower (username_user demo_row) \<and>
   select_or_create (folding_session [demo_row]) ''PajLada'' =
     Inr (demo_row, folding_session [demo_row])"
proof -
  have a: "filter_by_username (exact_session [demo_row]) ''forsen'' = []" by code_simp
  have b: "filter_by_username (exact_session [demo_row]) ''pajlada'' = [demo_row]" by code_simp
  have c1: "column_eq (folding_session [demo_row]) = (\<lambda>a b. lower a = lower b)"
    by (simp add: folding_session_def)
  have c2: "distinct (map (\<lambda>u. lower (username_user u)) (rows (folding_session [demo_row])))"
    by (simp add: folding_session_def)
  have c3: "demo_row \<in> set (rows (folding_session [demo_row]))"
    by (simp add: folding_session_def)
  have c4: "lower ''PajLada'' = lower (username_user demo_row)" by code_simp
  have ra: "select_or_create (exact_session [demo_row]) ''forsen'' =
     Inr (User_init ''forsen'', exact_session [demo_row, User_init ''forsen''])"
    using select_or_create_spec[of "exact_session [demo_row]" "''forsen''", THEN conjunct1] a
    by (simp add: exact_session_def)
  have rb: "select_or_create (exact_session [demo_row]) ''pajlada'' =
     Inr (demo_row, exact_session [demo_row])"
    using select_or_create_spec[of "exact_session [demo_row]" "''pajlada''" demo_row] b by simp
  have rc: "select_or_create (folding_session [demo_row]) ''PajLada'' =
     Inr (demo_row, folding_session [demo_row])"
    using select_or_create_spec[of "folding_session [demo_row]" "''PajLada''" demo_row]
      c1 c2 c3 c4 by simp
  show ?thesis using a b c2 c3 c4 ra rb rc by blast
qed

text \<open>
  The claim as it is written fails for a store that compares exactly: the lookup of
  \<^verbatim>\<open>Foo\<close> does not find the row \<^verbatim>\<open>foo\<close>, and the record built for it carries the
  user name \<^verbatim>\<open>foo\<close> a second time.
\<close>

theorem select_or_create_counterexample:
  "(case select_or_create (exact_session [User_init ''foo'']) ''Foo'' of
      Inl e \<Rightarrow> False
    | Inr (u, s) \<Rightarrow> u = User_init ''Foo'' \<and> map username_user (rows s) = [''foo'', ''foo''])"
  by code_simp


section \<open>Loading the key-value fields\<close>

lemma pipeline_six:
  "pipeline_execute (queue_up_redis_calls strm u) r =
     ([fst (zscore (users_key strm ''num_lines'') u r),
       fst (hget (users_key strm ''last_seen'') u r),
       fst (hget (users_key strm ''last_active'') u r),
       fst (hget (users_key strm ''username_raw'') u r),
       fst (hget (users_key strm ''ignored'') u r),
       fst (hget (users_key strm ''banned'') u r)],
      r\<lparr>commands := commands r @
         [ZSCORE (users_key strm ''num_lines'') u,
          HGET (users_key strm ''last_seen'') u,
          HGET (users_key strm ''last_active'') u,
          HGET (users_key strm ''username_raw'') u,
          HGET (users_key strm ''ignored'') u,
          HGET (users_key strm ''banned'') u]\<rparr>)"
  by (simp add: queue_up_redis_calls_def SS_KEYS_def HASH_KEYS_def BOOL_KEYS_def
        zscore_def hget_def sent_def)

lemma load_values_six:
  "\<exists>vals'. load_values u FULL_KEYS [a, b, c, d, e, f] vals = (Return (), vals') \<and>
     vals' ''ignored'' = Some (PyBool (fix_bool ''ignored'' e)) \<and>
     vals' ''banned'' = Some (PyBool (fix_bool ''banned'' f)) \<and>
     vals' ''username_raw'' = Some (if truthy d then val_of_reply d else PyStr u)"
  by (simp add: FULL_KEYS_def SS_KEYS_def HASH_KEYS_def BOOL_KEYS_def fix_ss_def fix_hash_def
        SS_DEFAULTS_def HASH_DEFAULTS_def split: option.splits)

lemma redis_load_fresh:
  assumes "\<not> redis_loaded self"
  shows "\<exists>vals' r'.
           redis_load (self, w) =
             (Return (), (self\<lparr>redis_loaded := True, values_dict := vals'\<rparr>, w\<lparr>kv := r'\<rparr>)) \<and>
           vals' ''ignored'' =
             Some (PyBool (map_of (hashes (kv w) (users_key (streamer w) ''ignored''))
                             (username self) \<noteq> None)) \<and>
           vals' ''banned'' =
             Some (PyBool (map_of (hashes (kv w) (users_key (streamer w) ''banned''))
                             (username self) \<noteq> None)) \<and>
           vals' ''username_raw'' \<noteq> None"
proof -
  let ?strm = "streamer w" and ?u = "username self" and ?r = "kv w"
  let ?a = "fst (zscore (users_key ?strm ''num_lines'') ?u ?r)"
  let ?b = "fst (hget (users_key ?strm ''last_seen'') ?u ?r)"
  let ?c = "fst (hget (users_key ?strm ''last_active'') ?u ?r)"
  let ?d = "fst (hget (users_key ?strm ''username_raw'') ?u ?r)"
  let ?e = "fst (hget (users_key ?strm ''ignored'') ?u ?r)"
  let ?f = "fst (hget (users_key ?strm ''banned'') ?u ?r)"
  obtain vals' where v:
    "load_values ?u FULL_KEYS [?a, ?b, ?c, ?d, ?e, ?f] (values_dict self) = (Return (), vals')"
    "vals' ''ignored'' = Some (PyBool (fix_bool ''ignored'' ?e))"
    "vals' ''banned'' = Some (PyBool (fix_bool ''banned'' ?f))"
    "vals' ''username_raw'' = Some (if truthy ?d then val_of_reply ?d else PyStr ?u)"
    using load_values_six[of ?u ?a ?b ?c ?d ?e ?f "values_dict self"] by blast
  have e: "fix_bool ''ignored'' ?e =
             (map_of (hashes ?r (users_key ?strm ''ignored'')) ?u \<noteq> None)"
    by (simp add: fix_bool_def hget_def split: option.splits)
  have f: "fix_bool ''banned'' ?f =
             (map_of (hashes ?r (users_key ?strm ''banned'')) ?u \<noteq> None)"
    by (simp add: fix_bool_def hget_def split: option.splits)
  let ?R = "snd (pipeline_execute (queue_up_redis_calls ?strm ?u) ?r)"
  have rl: "redis_load (self, w) =
      (Return (), (self\<lparr>redis_loaded := True, values_dict := vals'\<rparr>, w\<lparr>kv := ?R\<rparr>))"
    using assms v(1) by (simp add: pipeline_six)
  show ?thesis
  proof (intro exI conjI)
    show "redis_load (self, w) =
      (Return (), (self\<lparr>redis_loaded := True, values_dict := vals'\<rparr>, w\<lparr>kv := ?R\<rparr>))"
      by (rule rl)
    show "vals' ''ignored'' =
             Some (PyBool (map_of (hashes (kv w) (users_key (streamer w) ''ignored''))
                             (username self) \<noteq> None))"
      using v(2) e by simp
    show "vals' ''banned'' =
             Some (PyBool (map_of (hashes (kv w) (users_key (streamer w) ''banned''))
                             (username self) \<noteq> None))"
      using v(3) f by simp
    show "vals' ''username_raw'' \<noteq> None" using v(4) by simp
  qed
qed

lemma map_of_after_hset:
  "map_of (hashes (hset key f v r) key) f = Some v"
  by (simp add: hset_def sent_def update_conv')

lemma map_of_after_hdel:
  "map_of (hashes (hdel key f r) key) f = None"
  by (simp add: hdel_def sent_def delete_conv')

lemma get_banned_fresh:
  assumes "\<not> redis_loaded self"
  shows "fst (get_banned (self, w)) =
           Return (PyBool (map_of (hashes (kv w) (users_key (streamer w) ''banned''))
                             (username self) \<noteq> None))"
proof -
  obtain vals' r' where
    "redis_load (self, w) =
       (Return (), (self\<lparr>redis_loaded := True, values_dict := vals'\<rparr>, w\<lparr>kv := r'\<rparr>))"
    "vals' ''banned'' =
       Some (PyBool (map_of (hashes (kv w) (users_key (streamer w) ''banned''))
                       (username self) \<noteq> None))"
    using redis_load_fresh[OF assms, of w] by blast
  then show ?thesis by (simp add: get_banned_def and_then_def)
qed

lemma get_ignored_fresh:
  assumes "\<not> redis_loaded self"
  shows "fst (get_ignored (self, w)) =
           Return (PyBool (map_of (hashes (kv w) (users_key (streamer w) ''ignored''))
                             (username self) \<noteq> None))"
proof -
  obtain vals' r' where
    "redis_load (self, w) =
       (Return (), (self\<lparr>redis_loaded := True, values_dict := vals'\<rparr>, w\<lparr>kv := r'\<rparr>))"
    "vals' ''ignored'' =
       Some (PyBool (map_of (hashes (kv w) (users_key (streamer w) ''ignored''))
                       (username self) \<noteq> None))"
    using redis_load_fresh[OF assms, of w] by blast
  then show ?thesis by (simp add: get_ignored_def and_then_def)
qed

lemma set_banned_store:
  "map_of (hashes (kv (snd (snd (set_banned (PyBool b) st))))
            (users_key (streamer (snd (snd (set_banned (PyBool b) st)))) ''banned''))
     (username (fst st)) = (if b then Some (Num 1) else None) \<and>
   username (fst (snd (set_banned (PyBool b) st))) = username (fst st) \<and>
   redis_loaded (fst (snd (set_banned (PyBool b) st))) = redis_loaded (fst st) \<and>
   values_dict (fst (snd (set_banned (PyBool b) st))) ''banned'' = Some (PyBool b)"
  by (cases st) (simp add: Let_def map_of_after_hset map_of_after_hdel)

lemma set_ignored_store:
  "map_of (hashes (kv (snd (snd (set_ignored (PyBool b) st))))
            (users_key (streamer (snd (snd (set_ignored (PyBool b) st)))) ''ignored''))
     (username (fst st)) = (if b then Some (Num 1) else None)"
  by (cases st) (simp add: Let_def map_of_after_hset map_of_after_hdel)

text \<open>
  Claim C9. A boolean field decodes to true exactly when the reply of the store is
  not \<^verbatim>\<open>None\<close>, whatever the stored text. After \<^verbatim>\<open>banned\<close> has been set to \<open>b\<close>,
  an object for the same user name that has not loaded its key-value fields, as a
  restarted process has it, reads \<^verbatim>\<open>banned\<close> as \<open>b\<close>, and so does the object that
  wrote it; \<^verbatim>\<open>ignored\<close> reads back from the store likewise.
\<close>

theorem banned_round_trip:
  assumes "username other = username (fst st)" and "\<not> redis_loaded other"
  shows "fix_bool key v = (v \<noteq> Nil) \<and>
         fst (get_banned (other, snd (snd (set_banned (PyBool True) st)))) = Return (PyBool True) \<and>
         fst (get_banned (other, snd (snd (set_banned (PyBool False) st)))) =
           Return (PyBool False) \<and>
         fst (get_banned (snd (set_banned (PyBool b) st))) = Return (PyBool b) \<and>
         fst (get_ignored (other, snd (snd (set_ignored (PyBool b) st)))) = Return (PyBool b)"
proof -
  have a: "fix_bool key v = (v \<noteq> Nil)" by (simp add: fix_bool_def)
  have r: "fst (get_banned (other, snd (snd (set_banned (PyBool c) st)))) = Return (PyBool c)" for c
    using get_banned_fresh[OF assms(2)] set_banned_store[of c st] assms(1) by simp
  have i: "fst (get_ignored (other, snd (snd (set_ignored (PyBool b) st)))) = Return (PyBool b)"
    using get_ignored_fresh[OF assms(2)] set_ignored_store[of b st] assms(1) by simp
  have s: "fst (get_banned (snd (set_banned (PyBool b) st))) = Return (PyBool b)"
  proof (cases "redis_loaded (fst st)")
    case True
    obtain self1 w1 where s1: "snd (set_banned (PyBool b) st) = (self1, w1)"
      by (cases "snd (set_banned (PyBool b) st)")
    have "redis_loaded self1" "values_dict self1 ''banned'' = Some (PyBool b)"
      using set_banned_store[of b st] True s1 by auto
    then show ?thesis unfolding s1 by (simp add: get_banned_def and_then_def)
  next
    case False
    obtain self1 w1 where s1: "snd (set_banned (PyBool b) st) = (self1, w1)"
      by (cases "snd (set_banned (PyBool b) st)")
    have n: "\<not> redis_loaded self1" and u: "username self1 = username (fst st)"
      and m: "map_of (hashes (kv w1) (users_key (streamer w1) ''banned'')) (username (fst st)) =
                (if b then Some (Num 1) else None)"
      using set_banned_store[of b st] False s1 by auto
    show ?thesis unfolding s1 using get_banned_fresh[OF n, of w1] u m by simp
  qed
  show ?thesis using a r[of True] r[of False] s i by blast
qed

theorem banned_round_trip_witness:
  "username (UserRedis_init ''pajlada'' blank_object) = username (fst demo_state) \<and>
   \<not> redis_loaded (UserRedis_init ''pajlada'' blank_object) \<and>
   fix_bool ''banned'' (Bulk (Txt ''no'')) = True \<and>
   fst (get_banned (UserRedis_init ''pajlada'' blank_object,
          snd (snd (set_banned (PyBool True) demo_state)))) = Return (PyBool True) \<and>
   fst (get_banned (UserRedis_init ''pajlada'' blank_object,
          snd (snd (set_banned (PyBool False) demo_state)))) = Return (PyBool False)"
proof -
  have u: "username (UserRedis_init ''pajlada'' blank_object) = username (fst demo_state)"
    by code_simp
  have n: "\<not> redis_loaded (UserRedis_init ''pajlada'' blank_object)"
    by (simp add: UserRedis_init_def)
  show ?thesis
    using banned_round_trip[OF u n, of "''banned''" "Bulk (Txt ''no'')" True] u n by simp
qed


section \<open>Spending points inside a scope\<close>

lemma get_username_raw_ok:
  assumes "values_dict (fst s) ''username_raw'' \<noteq> None"
  shows "\<exists>raw s'. get_username_raw s = (Return raw, s') \<and>
           user_model (fst s') = user_model (fst s) \<and>
           model_loaded (fst s') = model_loaded (fst s)"
proof -
  obtain self w where s: "s = (self, w)" by (cases s)
  show ?thesis
  proof (cases "redis_loaded self")
    case True
    then show ?thesis using assms s by (auto simp: get_username_raw_def and_then_def)
  next
    case False
    obtain vals' r' where
      "redis_load (self, w) =
         (Return (), (self\<lparr>redis_loaded := True, values_dict := vals'\<rparr>, w\<lparr>kv := r'\<rparr>))"
      "vals' ''username_raw'' \<noteq> None"
      using redis_load_fresh[OF False, of w] by blast
    then show ?thesis using s by (auto simp: get_username_raw_def and_then_def)
  qed
qed

lemma returning_points_loaded:
  assumes "loaded s" and "values_dict (fst s) ''username_raw'' \<noteq> None"
  shows "\<exists>s'. returning_points p s = (Return (), s') \<and> loaded s' \<and> balance s' = balance s + p"
proof -
  obtain raw s1 where g: "get_username_raw s = (Return raw, s1)"
    "user_model (fst s1) = user_model (fst s)" "model_loaded (fst s1) = model_loaded (fst s)"
    using get_username_raw_ok[OF assms(2)] by blast
  obtain self1 w1 where s1: "s1 = (self1, w1)" by (cases s1)
  let ?l = "Debug (''Returning '' @ str_int p @ '' points to '' @ str_pyval raw)"
  let ?s2 = "(self1, w1\<lparr>log := log w1 @ [?l]\<rparr>)"
  have l2: "loaded ?s2" "balance ?s2 = balance s"
    using assms(1) g(2,3) s1 by (auto simp: loaded_def balance_def)
  have "returning_points p s = points_iadd p ?s2"
    using g(1) s1 by (simp add: returning_points_def and_then_def)
  then have "returning_points p s = (Return (), with_points (balance s + p) ?s2)"
    using points_iadd_loaded[OF l2(1)] l2(2) by simp
  then show ?thesis using loaded_with_points[OF l2(1), of "balance s + p"] by simp
qed

lemma handle_loaded:
  assumes "loaded s" and "values_dict (fst s) ''username_raw'' \<noteq> None"
  shows "\<exists>s'. handle e p s = (Return (), s') \<and> loaded s' \<and> balance s' = balance s + p"
proof (cases "e = FailedCommand")
  case True
  then show ?thesis using returning_points_loaded[OF assms] by (simp add: handle_def)
next
  case False
  obtain self w where s: "s = (self, w)" by (cases s)
  let ?s1 = "(self, w\<lparr>log := log w @ [Exception ''XXXX'']\<rparr>)"
  have l1: "loaded ?s1" "values_dict (fst ?s1) ''username_raw'' \<noteq> None"
    "balance ?s1 = balance s"
    using assms s by (auto simp: loaded_def balance_def)
  have "handle e p s = returning_points p ?s1"
    using False s by (simp add: handle_def and_then_def)
  then show ?thesis using returning_points_loaded[OF l1(1,2), of p] l1(3) by simp
qed

text \<open>
  Claim C1, as the code has it. Let \<open>old\<close> be the balance that reading \<^verbatim>\<open>points\<close>
  returns and let the amount be covered, \<open>p \<le> old\<close>. Let the action raise, a
  recognised command failure or anything else, and leave the record loaded with the
  balance that the deduction left and the raw name in \<^verbatim>\<open>self.values\<close>. Then the
  handler adds the \<open>p\<close> points back and ends: the \<^verbatim>\<open>with\<close> statement completes
  normally, the failure does not reach the caller, and the balance read afterwards is
  \<open>old\<close>.
\<close>

theorem spend_currency_context_refund:
  assumes "get_points st = (Return old, st0)"
    and "p \<le> old"
    and "body (snd (spend_points p st)) = (Raise e, s2)"
    and "loaded s2"
    and "balance s2 = old - p"
    and "values_dict (fst s2) ''username_raw'' \<noteq> None"
  shows "fst (spend_currency_context p t body st) = Return () \<and>
         fst (get_points (snd (spend_currency_context p t body st))) = Return old"
proof -
  have l: "loaded st0" and b: "balance st0 = old"
    using get_points_Return[OF assms(1)] by auto
  let ?s1 = "with_points (old - p) st0"
  have "spend_points p st = spend_points p st0"
    unfolding spend_points_def by (rule first_load[OF assms(1)])
  then have sp: "spend_points p st = (Return True, ?s1)"
    using spend_points_loaded[OF l] b assms(2) by simp
  have bd: "body ?s1 = (Raise e, s2)" using assms(3) sp by simp
  obtain s' where h: "handle e p s2 = (Return (), s')" "loaded s'" "balance s' = old"
    using handle_loaded[OF assms(4) assms(6), of e p] assms(5) by auto
  have "spend_currency_context p t body st = (Return (), s')"
    using sp bd h(1) by (simp add: spend_currency_context_def)
  then show ?thesis using get_points_loaded[OF h(2)] h(3) by simp
qed

lemma demo_after_spend:
  "loaded (snd (spend_points 20 demo_state)) \<and>
   balance (snd (spend_points 20 demo_state)) = 50 - 20 \<and>
   values_dict (fst (snd (spend_points 20 demo_state))) ''username_raw'' \<noteq> None"
  by code_simp

theorem spend_currency_context_refund_witness:
  "fst (get_points demo_state) = Return 50 \<and> (20::int) \<le> 50 \<and>
   failing_action (OtherException ''boom'') (snd (spend_points 20 demo_state)) =
     (Raise (OtherException ''boom''), snd (spend_points 20 demo_state)) \<and>
   loaded (snd (spend_points 20 demo_state)) \<and>
   balance (snd (spend_points 20 demo_state)) = 50 - 20 \<and>
   values_dict (fst (snd (spend_points 20 demo_state))) ''username_raw'' \<noteq> None \<and>
   fst (spend_currency_context 20 0 (failing_action (OtherException ''boom'')) demo_state) =
     Return () \<and>
   fst (get_points (snd (spend_currency_context 20 0
          (failing_action (OtherException ''boom'')) demo_state))) = Return 50"
proof -
  have h: "get_points demo_state = (Return 50, snd (get_points demo_state))"
    using demo_balance by (simp add: prod_eq_iff)
  have le: "(20::int) \<le> 50" by simp
  have bd: "failing_action (OtherException ''boom'') (snd (spend_points 20 demo_state)) =
             (Raise (OtherException ''boom''), snd (spend_points 20 demo_state))"
    by (simp add: failing_action_def)
  note d = demo_after_spend
  note r = spend_currency_context_refund[where body = "failing_action (OtherException ''boom'')"
        and t = 0, OF h le bd d[THEN conjunct1] d[THEN conjunct2, THEN conjunct1]
        d[THEN conjunct2, THEN conjunct2]]
  show ?thesis using r demo_balance le bd d by blast
qed

text \<open>
  The claim as it is written fails: the failure is not raised again, for a command
  failure as for any other exception, and an amount that exceeds the balance is not
  deducted but is added all the same, so that the balance of 50 ends at 120.
\<close>

theorem spend_currency_context_counterexample:
  "fst (spend_currency_context 20 0 (failing_action FailedCommand) demo_state) = Return () \<and>
   fst (spend_currency_context 20 0 (failing_action (OtherException ''boom'')) demo_state) =
     Return () \<and>
   fst (get_points demo_state) = Return 50 \<and>
   fst (spend_currency_context 70 0 (failing_action FailedCommand) demo_state) = Return () \<and>
   fst (get_points (snd (spend_currency_context 70 0 (failing_action FailedCommand)
          demo_state))) = Return 120"
  by code_simp


section \<open>Warnings and timeouts\<close>

lemma add_warning_first:
  "length ks = length ws \<Longrightarrow> Nil \<in> set ws \<Longrightarrow>
   add_warning t ks ws r = (Return True, setex (ks ! first_unset ws) t (Num 1) r)"
proof (induction ks ws rule: list_induct2)
  case Nil
  then show ?case by simp
next
  case (Cons k ks x xs)
  then show ?case by (cases "x = Nil") (auto simp: first_unset_def)
qed

lemma first_unset_props:
  "Nil \<in> set ws \<Longrightarrow>
   first_unset ws < length ws \<and> ws ! first_unset ws = Nil \<and>
   (\<forall>j < first_unset ws. ws ! j \<noteq> Nil)"
proof (induction ws)
  case Nil
  then show ?case by simp
next
  case (Cons x xs)
  show ?case
  proof (cases "x = Nil")
    case True
    then show ?thesis by (simp add: first_unset_def)
  next
    case False
    then have "Nil \<in> set xs" using Cons.prems by auto
    from Cons.IH[OF this] False show ?thesis
      by (auto simp: first_unset_def nth_Cons split: nat.splits)
  qed
qed

lemma keys_length: "length (warning_keys_of st m) = nat (total_chances m)"
  by (simp add: warning_keys_of_def get_warning_keys_def)

lemma warnings_length: "length (warnings_of st m) = nat (total_chances m)"
  by (simp add: warnings_of_def get_warnings_def mget_def keys_length)

lemma warnings_nth:
  "j < nat (total_chances m) \<Longrightarrow>
   (warnings_of st m ! j = Nil) = (plain_keys (kv (snd st)) (warning_keys_of st m ! j) = None)"
  by (auto simp: warnings_of_def get_warnings_def mget_def keys_length split: option.splits)

lemma used_less:
  assumes "chances_used_of st m < total_chances m"
  shows "Nil \<in> set (warnings_of st m)"
proof (rule ccontr)
  assume "Nil \<notin> set (warnings_of st m)"
  then have "count_list (warnings_of st m) Nil = 0" by (simp add: count_list_0_iff)
  then have "chances_used_of st m = int (nat (total_chances m))"
    by (simp add: chances_used_of_def get_chances_used_def warnings_length)
  with assms show False by (simp split: if_splits)
qed

lemma timeout_unfold:
  "timeout L (Some m) True st =
     (if chances_used_of st m < total_chances m
      then case add_warning (length_setting m) (warning_keys_of st m) (warnings_of st m)
                  (sent (MGET (warning_keys_of st m)) (kv (snd st))) of
             (Raise e, r2) \<Rightarrow> (Raise e, (fst st, (snd st)\<lparr>kv := r2\<rparr>))
           | (Return b, r2) \<Rightarrow>
               (Return (base_timeout m * (chances_used_of st m + 1),
                        ''timed out for '' @ str_int (base_timeout m * (chances_used_of st m + 1)) @
                        '' seconds (warning)''),
                (fst st, (snd st)\<lparr>kv := r2\<rparr>))
      else (Return (L, ''timed out for '' @ str_int L @ '' seconds''),
            (fst st, (snd st)\<lparr>kv := sent (MGET (warning_keys_of st m)) (kv (snd st))\<rparr>)))"
proof -
  obtain self w where st: "st = (self, w)" by (cases st)
  show ?thesis
    unfolding st
    by (simp add: Let_def chances_used_of_def warnings_of_def warning_keys_of_def
          get_warnings_def mget_def split: prod.splits outcome.splits)
qed

lemma timeout_warning:
  assumes "chances_used_of st m < total_chances m"
  shows "timeout L (Some m) True st =
           (Return (base_timeout m * (chances_used_of st m + 1),
                    ''timed out for '' @ str_int (base_timeout m * (chances_used_of st m + 1)) @
                    '' seconds (warning)''),
            (fst st,
             (snd st)\<lparr>kv := setex (warning_keys_of st m ! first_unset (warnings_of st m))
                              (length_setting m) (Num 1)
                              (sent (MGET (warning_keys_of st m)) (kv (snd st)))\<rparr>))"
proof -
  have "length (warning_keys_of st m) = length (warnings_of st m)"
    by (simp add: keys_length warnings_length)
  from add_warning_first[OF this used_less[OF assms]] assms
  show ?thesis by (simp add: timeout_unfold)
qed

lemma timeout_full:
  assumes "\<not> chances_used_of st m < total_chances m"
  shows "timeout L (Some m) True st =
           (Return (L, ''timed out for '' @ str_int L @ '' seconds''),
            (fst st, (snd st)\<lparr>kv := sent (MGET (warning_keys_of st m)) (kv (snd st))\<rparr>))"
  using assms by (simp add: timeout_unfold)

lemma chances_used_count:
  "chances_used_of st m =
     int (length (filter (\<lambda>k. plain_keys (kv (snd st)) k \<noteq> None) (warning_keys_of st m)))"
proof -
  have "int (length xs) - int (count_list (map f xs) Nil) =
        int (length (filter (\<lambda>k. f k \<noteq> Nil) xs))" for f :: "string \<Rightarrow> reply" and xs
    by (induction xs) auto
  from this[of "warning_keys_of st m"
      "\<lambda>k. case plain_keys (kv (snd st)) k of None \<Rightarrow> Nil | Some (v, ttl) \<Rightarrow> Bulk v"]
  have "chances_used_of st m =
     int (length (filter (\<lambda>k. (case plain_keys (kv (snd st)) k of None \<Rightarrow> Nil
                                  | Some (v, ttl) \<Rightarrow> Bulk v) \<noteq> Nil) (warning_keys_of st m)))"
    by (simp add: chances_used_of_def get_chances_used_def warnings_of_def get_warnings_def
          mget_def)
  moreover have "((case plain_keys (kv (snd st)) k of None \<Rightarrow> Nil | Some (v, ttl) \<Rightarrow> Bulk v) \<noteq> Nil) =
                 (plain_keys (kv (snd st)) k \<noteq> None)" for k
    by (auto split: option.splits)
  ultimately show ?thesis by simp
qed

lemma str_int_small: "str_int 0 = ''0''" "str_int 1 = ''1''" "str_int 10 = ''10''" "str_int 20 = ''20''"
  by code_simp+

lemma upt_two: "[0 ..< (2::nat)] = [0, 1]"
  by code_simp

lemma keys_two:
  "total_chances m = 2 \<Longrightarrow>
   warning_keys_of st m =
     [redis_prefix m @ ''_'' @ username (fst st) @ ''_warning_0'',
      redis_prefix m @ ''_'' @ username (fst st) @ ''_warning_1'']"
  by (simp add: warning_keys_of_def get_warning_keys_def upt_two str_int_small)

lemma three_timeouts:
  assumes "total_chances m = 2" and "base_timeout m = 10"
    and "\<forall>k \<in> set (warning_keys_of st m). plain_keys (kv (snd st)) k = None"
  shows "fst (timeout La (Some m) True st) = Return (10, ''timed out for 10 seconds (warning)'') \<and>
         fst (timeout Lb (Some m) True (snd (timeout La (Some m) True st))) =
           Return (20, ''timed out for 20 seconds (warning)'') \<and>
         fst (timeout Lc (Some m) True
                (snd (timeout Lb (Some m) True (snd (timeout La (Some m) True st))))) =
           Return (Lc, ''timed out for '' @ str_int Lc @ '' seconds'')"
proof -
  obtain self w where st: "st = (self, w)" by (cases st)
  let ?k0 = "redis_prefix m @ ''_'' @ username self @ ''_warning_0''"
  let ?k1 = "redis_prefix m @ ''_'' @ username self @ ''_warning_1''"
  have ks: "warning_keys_of (self, x) m = [?k0, ?k1]" for x
    using keys_two[OF assms(1), of "(self, x)"] by simp
  have ne: "?k0 \<noteq> ?k1" by simp
  have p0: "plain_keys (kv w) ?k0 = None" "plain_keys (kv w) ?k1 = None"
    using assms(3) ks[of w] st by auto
  let ?r1 = "setex ?k0 (length_setting m) (Num 1) (sent (MGET [?k0, ?k1]) (kv w))"
  have u0: "chances_used_of (self, w) m = 0" "first_unset (warnings_of (self, w) m) = 0"
    using p0 by (simp_all add: chances_used_of_def warnings_of_def ks get_warnings_def mget_def
        get_chances_used_def first_unset_def)
  have t1: "timeout La (Some m) True (self, w) =
      (Return (10, ''timed out for 10 seconds (warning)''), (self, w\<lparr>kv := ?r1\<rparr>))"
    using timeout_warning[of "(self, w)" m La] u0 assms(1,2) ks[of w]
    by (simp add: str_int_small)
  have p1: "plain_keys ?r1 ?k0 = Some (Num 1, length_setting m)" "plain_keys ?r1 ?k1 = None"
    using p0 ne by (simp_all add: setex_def sent_def)
  let ?w1 = "w\<lparr>kv := ?r1\<rparr>"
  let ?r2 = "setex ?k1 (length_setting m) (Num 1) (sent (MGET [?k0, ?k1]) ?r1)"
  have u1: "chances_used_of (self, ?w1) m = 1" "first_unset (warnings_of (self, ?w1) m) = 1"
    using p1 by (simp_all add: chances_used_of_def warnings_of_def ks get_warnings_def mget_def
        get_chances_used_def first_unset_def)
  have t2: "timeout Lb (Some m) True (self, ?w1) =
      (Return (20, ''timed out for 20 seconds (warning)''), (self, ?w1\<lparr>kv := ?r2\<rparr>))"
    using timeout_warning[of "(self, ?w1)" m Lb] u1 assms(1,2) ks[of ?w1]
    by (simp add: str_int_small)
  have p2: "plain_keys ?r2 ?k0 = Some (Num 1, length_setting m)"
           "plain_keys ?r2 ?k1 = Some (Num 1, length_setting m)"
    using p1 ne by (simp_all add: setex_def sent_def)
  let ?w2 = "?w1\<lparr>kv := ?r2\<rparr>"
  have u2: "chances_used_of (self, ?w2) m = 2"
    using p2 by (simp add: chances_used_of_def warnings_of_def ks get_warnings_def mget_def
        get_chances_used_def)
  have t3: "fst (timeout Lc (Some m) True (self, ?w2)) =
      Return (Lc, ''timed out for '' @ str_int Lc @ '' seconds'')"
    using timeout_full[of "(self, ?w2)" m Lc] u2 assms(1) by simp
  show ?thesis unfolding st using t1 t2 t3 by simp
qed

text \<open>
  Claim C5. \<^verbatim>\<open>timeout(L)\<close> with warnings enabled and a policy \<open>m\<close>. The chances used
  are the warning keys that are set. While they are fewer than \<^verbatim>\<open>total_chances\<close>, the
  call returns the length \<^verbatim>\<open>base_timeout\<close> times the chances used plus one, with the
  warning label, and sets the first warning key that was unset, with the lifetime of
  the policy, and no other. Once all chances are used it returns \<open>L\<close> with the plain
  label and sets nothing. With two chances, a base timeout of 10 and no warning key
  set, three calls in a row return 10, then 20, then the length asked for.
\<close>

theorem timeout_spec:
  "chances_used_of st m =
     int (length (filter (\<lambda>k. plain_keys (kv (snd st)) k \<noteq> None) (warning_keys_of st m))) \<and>
   (chances_used_of st m < total_chances m \<longrightarrow>
      fst (timeout L (Some m) True st) =
        Return (base_timeout m * (chances_used_of st m + 1),
                ''timed out for '' @ str_int (base_timeout m * (chances_used_of st m + 1)) @
                '' seconds (warning)'') \<and>
      first_unset (warnings_of st m) < length (warning_keys_of st m) \<and>
      plain_keys (kv (snd st)) (warning_keys_of st m ! first_unset (warnings_of st m)) = None \<and>
      (\<forall>j < first_unset (warnings_of st m).
         plain_keys (kv (snd st)) (warning_keys_of st m ! j) \<noteq> None) \<and>
      plain_keys (kv (snd (snd (timeout L (Some m) True st)))) =
        (plain_keys (kv (snd st)))
          (warning_keys_of st m ! first_unset (warnings_of st m) \<mapsto> (Num 1, length_setting m))) \<and>
   (\<not> chances_used_of st m < total_chances m \<longrightarrow>
      fst (timeout L (Some m) True st) =
        Return (L, ''timed out for '' @ str_int L @ '' seconds'') \<and>
      plain_keys (kv (snd (snd (timeout L (Some m) True st)))) = plain_keys (kv (snd st))) \<and>
   (total_chances m = 2 \<and> base_timeout m = 10 \<and>
    (\<forall>k \<in> set (warning_keys_of st m). plain_keys (kv (snd st)) k = None) \<longrightarrow>
      fst (timeout La (Some m) True st) =
        Return (10, ''timed out for 10 seconds (warning)'') \<and>
      fst (timeout Lb (Some m) True (snd (timeout La (Some m) True st))) =
        Return (20, ''timed out for 20 seconds (warning)'') \<and>
      fst (timeout Lc (Some m) True
             (snd (timeout Lb (Some m) True (snd (timeout La (Some m) True st))))) =
        Return (Lc, ''timed out for '' @ str_int Lc @ '' seconds''))"
proof -
  let ?i = "first_unset (warnings_of st m)"
  have A: "chances_used_of st m < total_chances m \<longrightarrow>
      fst (timeout L (Some m) True st) =
        Return (base_timeout m * (chances_used_of st m + 1),
                ''timed out for '' @ str_int (base_timeout m * (chances_used_of st m + 1)) @
                '' seconds (warning)'') \<and>
      ?i < length (warning_keys_of st m) \<and>
      plain_keys (kv (snd st)) (warning_keys_of st m ! ?i) = None \<and>
      (\<forall>j < ?i. plain_keys (kv (snd st)) (warning_keys_of st m ! j) \<noteq> None) \<and>
      plain_keys (kv (snd (snd (timeout L (Some m) True st)))) =
        (plain_keys (kv (snd st)))(warning_keys_of st m ! ?i \<mapsto> (Num 1, length_setting m))"
  proof
    assume u: "chances_used_of st m < total_chances m"
    note t = timeout_warning[OF u, of L]
    note f = first_unset_props[OF used_less[OF u]]
    have i: "?i < nat (total_chances m)" using f by (simp add: warnings_length)
    have a1: "fst (timeout L (Some m) True st) =
        Return (base_timeout m * (chances_used_of st m + 1),
                ''timed out for '' @ str_int (base_timeout m * (chances_used_of st m + 1)) @
                '' seconds (warning)'')" using t by simp
    have a2: "?i < length (warning_keys_of st m)" using i by (simp add: keys_length)
    have a3: "plain_keys (kv (snd st)) (warning_keys_of st m ! ?i) = None"
      using warnings_nth[OF i, of st] f by simp
    have a4: "\<forall>j < ?i. plain_keys (kv (snd st)) (warning_keys_of st m ! j) \<noteq> None"
    proof (intro allI impI)
      fix j assume j: "j < ?i"
      then have "j < nat (total_chances m)" using i by simp
      from warnings_nth[OF this, of st] f j
      show "plain_keys (kv (snd st)) (warning_keys_of st m ! j) \<noteq> None" by simp
    qed
    have a5: "plain_keys (kv (snd (snd (timeout L (Some m) True st)))) =
        (plain_keys (kv (snd st)))(warning_keys_of st m ! ?i \<mapsto> (Num 1, length_setting m))"
      unfolding t by (simp add: setex_def sent_def)
    show "fst (timeout L (Some m) True st) =
        Return (base_timeout m * (chances_used_of st m + 1),
                ''timed out for '' @ str_int (base_timeout m * (chances_used_of st m + 1)) @
                '' seconds (warning)'') \<and>
      ?i < length (warning_keys_of st m) \<and>
      plain_keys (kv (snd st)) (warning_keys_of st m ! ?i) = None \<and>
      (\<forall>j < ?i. plain_keys (kv (snd st)) (warning_keys_of st m ! j) \<noteq> None) \<and>
      plain_keys (kv (snd (snd (timeout L (Some m) True st)))) =
        (plain_keys (kv (snd st)))(warning_keys_of st m ! ?i \<mapsto> (Num 1, length_setting m))"
      using a1 a2 a3 a4 a5 by blast
  qed
  have B: "\<not> chances_used_of st m < total_chances m \<longrightarrow>
      fst (timeout L (Some m) True st) =
        Return (L, ''timed out for '' @ str_int L @ '' seconds'') \<and>
      plain_keys (kv (snd (snd (timeout L (Some m) True st)))) = plain_keys (kv (snd st))"
  proof
    assume u: "\<not> chances_used_of st m < total_chances m"
    show "fst (timeout L (Some m) True st) =
        Return (L, ''timed out for '' @ str_int L @ '' seconds'') \<and>
      plain_keys (kv (snd (snd (timeout L (Some m) True st)))) = plain_keys (kv (snd st))"
      unfolding timeout_full[OF u, of L] by (simp add: sent_def)
  qed
  have C: "total_chances m = 2 \<and> base_timeout m = 10 \<and>
    (\<forall>k \<in> set (warning_keys_of st m). plain_keys (kv (snd st)) k = None) \<longrightarrow>
      fst (timeout La (Some m) True st) =
        Return (10, ''timed out for 10 seconds (warning)'') \<and>
      fst (timeout Lb (Some m) True (snd (timeout La (Some m) True st))) =
        Return (20, ''timed out for 20 seconds (warning)'') \<and>
      fst (timeout Lc (Some m) True
             (snd (timeout Lb (Some m) True (snd (timeout La (Some m) True st))))) =
        Return (Lc, ''timed out for '' @ str_int Lc @ '' seconds'')"
    using three_timeouts[of m st La Lb Lc] by blast
  show ?thesis using chances_used_count[of st m] A B C by blast
qed

lemma demo_policy_unset:
  "total_chances demo_policy = 2 \<and> base_timeout demo_policy = 10 \<and>
   (\<forall>k \<in> set (warning_keys_of demo_state demo_policy).
      plain_keys (kv (snd demo_state)) k = None)"
  by code_simp

lemma demo_policy_fresh:
  "chances_used_of demo_state demo_policy < total_chances demo_policy"
  by code_simp

lemma demo_policy_used:
  "\<not> chances_used_of
       (snd (timeout 300 (Some demo_policy) True
          (snd (timeout 300 (Some demo_policy) True demo_state)))) demo_policy
     < total_chances demo_policy"
  by code_simp

lemma str_int_300: "str_int 300 = ''300''"
  by code_simp

theorem timeout_spec_witness:
  "chances_used_of demo_state demo_policy < total_chances demo_policy \<and>
   fst (timeout 300 (Some demo_policy) True demo_state) =
     Return (10, ''timed out for 10 seconds (warning)'') \<and>
   fst (timeout 300 (Some demo_policy) True
          (snd (timeout 300 (Some demo_policy) True demo_state))) =
     Return (20, ''timed out for 20 seconds (warning)'') \<and>
   \<not> chances_used_of
       (snd (timeout 300 (Some demo_policy) True
          (snd (timeout 300 (Some demo_policy) True demo_state)))) demo_policy
     < total_chances demo_policy \<and>
   fst (timeout 300 (Some demo_policy) True
          (snd (timeout 300 (Some demo_policy) True
             (snd (timeout 300 (Some demo_policy) True demo_state))))) =
     Return (300, ''timed out for 300 seconds'')"
proof -
  let ?s2 = "snd (timeout 300 (Some demo_policy) True
               (snd (timeout 300 (Some demo_policy) True demo_state)))"
  note a = timeout_spec[of demo_state demo_policy 300 300 300 300]
  note b = timeout_spec[of ?s2 demo_policy 300 300 300 300]
  have c: "fst (timeout 300 (Some demo_policy) True demo_state) =
             Return (10, ''timed out for 10 seconds (warning)'') \<and>
           fst (timeout 300 (Some demo_policy) True
                  (snd (timeout 300 (Some demo_policy) True demo_state))) =
             Return (20, ''timed out for 20 seconds (warning)'') \<and>
           fst (timeout 300 (Some demo_policy) True ?s2) =
             Return (300, ''timed out for '' @ str_int 300 @ '' seconds'')"
    using a[THEN conjunct2, THEN conjunct2, THEN conjunct2, rule_format, OF demo_policy_unset] .
  have d: "fst (timeout 300 (Some demo_policy) True demo_state) =
             Return (base_timeout demo_policy * (chances_used_of demo_state demo_policy + 1),
               ''timed out for '' @
               str_int (base_timeout demo_policy * (chances_used_of demo_state demo_policy + 1)) @
               '' seconds (warning)'')"
    using a[THEN conjunct2, THEN conjunct1, rule_format, OF demo_policy_fresh] by blast
  have e: "fst (timeout 300 (Some demo_policy) True ?s2) =
             Return (300, ''timed out for '' @ str_int 300 @ '' seconds'')"
    using b[THEN conjunct2, THEN conjunct2, THEN conjunct1, rule_format, OF demo_policy_used]
    by blast
  have e': "fst (timeout 300 (Some demo_policy) True ?s2) =
             Return (300, ''timed out for 300 seconds'')"
    using e by (simp add: str_int_300)
  show ?thesis
    using c[THEN conjunct1] c[THEN conjunct2, THEN conjunct1] e'
      demo_policy_fresh demo_policy_used
    by blast
qed

end
